theory Spec2Isabelle
  imports Main "HOL-Library.AList"
begin

section \<open>The Memory Scramble board (board.ts)\<close>

text \<open>
  The board is a mutable object shared by asynchronous callers. Every public method
  runs its body between \<open>await acquireLock()\<close> and \<open>releaseLock()\<close>, and no
  \<open>await\<close> occurs inside such a section, so a locked section is one atomic step on
  the fields of the object. The model passes the object as a record; a promise resolver
  stored in a queue is a value of type \<open>callback\<close> naming the call it resumes, and the
  field \<open>resumed\<close> lists the resolvers that have been invoked so far, in order.
\<close>

subsection \<open>Data\<close>

record Spot =
  card_spot :: "string option"
  faceUp :: bool
  controller :: "string option"

datatype callback =
    FlipRetry string int int
  | WatchWake string
  | LockWaiter

record Board =
  rows :: nat
  cols :: nat
  grid :: "Spot list list"
  watchers :: "callback list"
  cardWaiters :: "((nat \<times> nat) \<times> callback list) list"
  lockWaiters :: "callback list"
  lockHeld :: bool
  resumed :: "callback list"

datatype error =
    InvalidCoordinates
  | NoCardAtPosition
  | AlreadyControlTwo
  | AlreadyControlledByYou
  | ControlledByAnother
  | AssertionError
  | InvalidTransformedCard string

datatype retval = Void | Text string

datatype outcome = Returned retval | Threw error | Suspended

subsection \<open>Card tokens\<close>

text \<open>\<open>CARD_REGEX = /^[^\s\n\r]+$/u\<close>: one or more characters, none of them white space.
  Characters are bytes here, so the white space is the ASCII white space.\<close>

definition is_space :: "char \<Rightarrow> bool" where
  "is_space ch = (ch \<in> set [CHR 0x09, CHR 0x0A, CHR 0x0B, CHR 0x0C, CHR 0x0D, CHR 0x20])"

definition CARD_REGEX :: "string \<Rightarrow> bool" where
  "CARD_REGEX s = (s \<noteq> [] \<and> list_all (\<lambda>ch. \<not> is_space ch) s)"

subsection \<open>The grid\<close>

text \<open>\<open>this.grid[r]?.[c]\<close>: the spot, or undefined outside the arrays.\<close>

definition spot_at :: "Spot list list \<Rightarrow> nat \<Rightarrow> nat \<Rightarrow> Spot option" where
  "spot_at g r c =
     (if r < length g then (if c < length (g ! r) then Some (g ! r ! c) else None) else None)"

text \<open>Assignment to the fields of the spot object found at \<open>(r, c)\<close>.\<close>

definition set_spot :: "Spot list list \<Rightarrow> nat \<Rightarrow> nat \<Rightarrow> Spot \<Rightarrow> Spot list list" where
  "set_spot g r c s = g[r := (g ! r)[c := s]]"

text \<open>The order of \<open>for (r = 0; r < rows; r++) for (c = 0; c < cols; c++)\<close>.\<close>

definition positions :: "Board \<Rightarrow> (nat \<times> nat) list" where
  "positions b = List.product [0..<rows b] [0..<cols b]"

text \<open>The constructor: spots in row-major order, all face down and uncontrolled.\<close>

definition nth_card :: "string list \<Rightarrow> nat \<Rightarrow> string option" where
  "nth_card cards i = (if i < length cards then Some (cards ! i) else None)"

definition new_grid :: "nat \<Rightarrow> nat \<Rightarrow> string list \<Rightarrow> Spot list list" where
  "new_grid n m cards =
     map (\<lambda>r. map (\<lambda>c. \<lparr>card_spot = nth_card cards (r * m + c), faceUp = False,
                          controller = None\<rparr>) [0..<m]) [0..<n]"

definition spot_ok :: "Spot \<Rightarrow> bool" where
  "spot_ok s =
     ((case card_spot s of
         None \<Rightarrow> faceUp s = False \<and> controller s = None
       | Some v \<Rightarrow> CARD_REGEX v)
      \<and> (controller s \<noteq> None \<longrightarrow> faceUp s = True))"

definition checkRep :: "Board \<Rightarrow> bool" where
  "checkRep b =
     (length (grid b) = rows b
      \<and> list_all (\<lambda>row. length row = cols b \<and> list_all spot_ok row) (grid b))"

definition new_Board :: "nat \<Rightarrow> nat \<Rightarrow> string list \<Rightarrow> Board" where
  "new_Board n m cards =
     \<lparr>rows = n, cols = m, grid = new_grid n m cards, watchers = [], cardWaiters = [],
      lockWaiters = [], lockHeld = False, resumed = []\<rparr>"

subsection \<open>The lock and the two registries\<close>

definition acquireLock :: "Board \<Rightarrow> bool \<times> Board" where
  "acquireLock b =
     (if \<not> lockHeld b then (True, b\<lparr>lockHeld := True\<rparr>)
      else (False, b\<lparr>lockWaiters := lockWaiters b @ [LockWaiter]\<rparr>))"

definition releaseLock :: "Board \<Rightarrow> Board" where
  "releaseLock b =
     (case lockWaiters b of
        [] \<Rightarrow> b\<lparr>lockHeld := False\<rparr>
      | k # ks \<Rightarrow> b\<lparr>lockWaiters := ks, resumed := resumed b @ [k]\<rparr>)"

definition notifyWatchers :: "Board \<Rightarrow> Board" where
  "notifyWatchers b = b\<lparr>resumed := resumed b @ watchers b, watchers := []\<rparr>"

definition notifyCardWaiters :: "Board \<Rightarrow> nat \<Rightarrow> nat \<Rightarrow> Board" where
  "notifyCardWaiters b r c =
     (case map_of (cardWaiters b) (r, c) of
        None \<Rightarrow> b
      | Some ws \<Rightarrow> b\<lparr>resumed := resumed b @ ws,
                      cardWaiters := AList.delete (r, c) (cardWaiters b)\<rparr>)"

definition waitForCard :: "Board \<Rightarrow> nat \<Rightarrow> nat \<Rightarrow> callback \<Rightarrow> Board" where
  "waitForCard b r c k =
     (let waiters = (case map_of (cardWaiters b) (r, c) of None \<Rightarrow> [] | Some ws \<Rightarrow> ws)
      in b\<lparr>cardWaiters := AList.update (r, c) (waiters @ [k]) (cardWaiters b)\<rparr>)"

subsection \<open>renderFor\<close>

definition viewOf :: "Spot \<Rightarrow> string \<Rightarrow> string" where
  "viewOf spot player =
     (case card_spot spot of
        None \<Rightarrow> ''none''
      | Some v \<Rightarrow>
          if \<not> faceUp spot then ''down''
          else if controller spot = Some player then ''my '' @ v
          else ''up '' @ v)"

fun show_nat :: "nat \<Rightarrow> string" where
  "show_nat n =
     (if n < 10 then [''0123456789'' ! n]
      else show_nat (n div 10) @ [''0123456789'' ! (n mod 10)])"

declare show_nat.simps [simp del]

fun join_lines :: "string list \<Rightarrow> string" where
  "join_lines [] = []"
| "join_lines [l] = l"
| "join_lines (l # l' # ls) = l @ [CHR 0x0A] @ join_lines (l' # ls)"

definition render_lines :: "Board \<Rightarrow> string \<Rightarrow> string list" where
  "render_lines b player =
     (show_nat (rows b) @ ''x'' @ show_nat (cols b))
     # List.map_filter
         (\<lambda>rc. case spot_at (grid b) (fst rc) (snd rc) of
                  None \<Rightarrow> None
                | Some spot \<Rightarrow> Some (viewOf spot player))
         (positions b)"

definition renderFor_locked :: "Board \<Rightarrow> string \<Rightarrow> outcome \<times> Board" where
  "renderFor_locked b player =
     (Returned (Text (join_lines (render_lines b player) @ [CHR 0x0A])), releaseLock b)"

definition renderFor :: "Board \<Rightarrow> string \<Rightarrow> outcome \<times> Board" where
  "renderFor b player =
     (case acquireLock b of
        (True, b1) \<Rightarrow> renderFor_locked b1 player
      | (False, b1) \<Rightarrow> (Suspended, b1))"

subsection \<open>cleanupCompletedTurns\<close>

definition heldCard :: "Spot list list \<Rightarrow> string \<Rightarrow> nat \<times> nat \<Rightarrow> (nat \<times> nat \<times> string) option" where
  "heldCard g player rc =
     (case spot_at g (fst rc) (snd rc) of
        None \<Rightarrow> None
      | Some spot \<Rightarrow>
          (case card_spot spot of
             None \<Rightarrow> None
           | Some v \<Rightarrow>
               if controller spot = Some player \<and> faceUp spot \<and> v \<noteq> []
               then Some (fst rc, snd rc, v) else None))"

definition playerCards :: "Board \<Rightarrow> string \<Rightarrow> (nat \<times> nat \<times> string) list" where
  "playerCards b player = List.map_filter (heldCard (grid b) player) (positions b)"

definition removed :: Spot where
  "removed = \<lparr>card_spot = None, faceUp = False, controller = None\<rparr>"

text \<open>Rule 3-A: exactly two cards held, with equal values: both are removed.\<close>

definition removeMatched :: "Board \<Rightarrow> string \<Rightarrow> bool \<times> Board" where
  "removeMatched b player =
     (let pc = playerCards b player
      in if length pc = 2 then
           (let r1 = fst (pc ! 0); c1 = fst (snd (pc ! 0));
                r2 = fst (pc ! 1); c2 = fst (snd (pc ! 1))
            in if snd (snd (pc ! 0)) = snd (snd (pc ! 1))
                  \<and> spot_at (grid b) r1 c1 \<noteq> None \<and> spot_at (grid b) r2 c2 \<noteq> None
               then (True,
                     notifyCardWaiters
                       (notifyCardWaiters
                          (b\<lparr>grid := set_spot (set_spot (grid b) r1 c1 removed) r2 c2 removed\<rparr>)
                          r1 c1)
                       r2 c2)
               else (False, b))
         else (False, b))"

text \<open>Rule 3-B: every face-up card that nobody controls is turned face down.\<close>

definition flipDown :: "nat \<times> nat \<Rightarrow> bool \<times> Board \<Rightarrow> bool \<times> Board" where
  "flipDown rc st =
     (case spot_at (grid (snd st)) (fst rc) (snd rc) of
        None \<Rightarrow> st
      | Some spot \<Rightarrow>
          if card_spot spot \<noteq> None \<and> faceUp spot \<and> controller spot = None
          then (True,
                notifyCardWaiters
                  ((snd st)\<lparr>grid := set_spot (grid (snd st)) (fst rc) (snd rc)
                                       (spot\<lparr>faceUp := False\<rparr>)\<rparr>)
                  (fst rc) (snd rc))
          else st)"

definition cleanupCompletedTurns :: "Board \<Rightarrow> string \<Rightarrow> bool \<times> Board" where
  "cleanupCompletedTurns b player = fold flipDown (positions b) (removeMatched b player)"

subsection \<open>flipCard\<close>

definition controls :: "Spot list list \<Rightarrow> string \<Rightarrow> nat \<times> nat \<Rightarrow> bool" where
  "controls g player rc =
     (case spot_at g (fst rc) (snd rc) of
        None \<Rightarrow> False
      | Some s \<Rightarrow> controller s = Some player \<and> faceUp s)"

definition controlledCount :: "Board \<Rightarrow> string \<Rightarrow> nat" where
  "controlledCount b player = length (filter (controls (grid b) player) (positions b))"

text \<open>The search for the first card of the turn, skipping the spot just flipped.\<close>

definition firstCard :: "Board \<Rightarrow> string \<Rightarrow> nat \<Rightarrow> nat \<Rightarrow> (nat \<times> nat \<times> string) option" where
  "firstCard b player r c =
     (case List.map_filter (heldCard (grid b) player)
             (filter (\<lambda>rc. rc \<noteq> (r, c)) (positions b)) of
        [] \<Rightarrow> None
      | x # _ \<Rightarrow> Some x)"

text \<open>Rule 2-E: the second card does not match, control of both is given up.\<close>

definition relinquish :: "Board \<Rightarrow> string \<Rightarrow> nat \<Rightarrow> nat \<Rightarrow> Spot \<Rightarrow> Board" where
  "relinquish b player r c spot =
     (case firstCard b player r c of
        None \<Rightarrow> b
      | Some (r1, c1, v1) \<Rightarrow>
          if Some v1 \<noteq> card_spot spot then
            (let g1 = set_spot (grid b) r c (spot\<lparr>controller := None\<rparr>)
             in case spot_at g1 r1 c1 of
                  None \<Rightarrow> b\<lparr>grid := g1\<rparr>
                | Some s1 \<Rightarrow> b\<lparr>grid := set_spot g1 r1 c1 (s1\<lparr>controller := None\<rparr>)\<rparr>)
          else b)"

text \<open>One pass through the body of \<open>while (true)\<close>, from the granted lock to its release.\<close>

definition flipCard_locked :: "Board \<Rightarrow> string \<Rightarrow> int \<Rightarrow> int \<Rightarrow> outcome \<times> Board" where
  "flipCard_locked b player row col =
     (let cl = cleanupCompletedTurns b player;
          b1 = (if fst cl then notifyWatchers (snd cl) else snd cl)
      in if row < 0 \<or> row \<ge> int (rows b1) \<or> col < 0 \<or> col \<ge> int (cols b1)
         then (Threw InvalidCoordinates, releaseLock b1)
         else
           (case spot_at (grid b1) (nat row) (nat col) of
              None \<Rightarrow> (Threw NoCardAtPosition, releaseLock b1)
            | Some spot \<Rightarrow>
                if card_spot spot = None then (Threw NoCardAtPosition, releaseLock b1)
                else if controlledCount b1 player \<ge> 2
                then (Threw AlreadyControlTwo, releaseLock b1)
                else if controller spot = Some player \<and> faceUp spot
                then (Threw AlreadyControlledByYou, releaseLock b1)
                else if controlledCount b1 player = 1 \<and> controller spot \<noteq> None
                then (Threw ControlledByAnother, releaseLock b1)
                else if controlledCount b1 player \<noteq> 1 \<and> controller spot \<noteq> None
                        \<and> controller spot \<noteq> Some player
                then (Suspended,
                      releaseLock (waitForCard b1 (nat row) (nat col) (FlipRetry player row col)))
                else
                  (let flipped = spot\<lparr>faceUp := True, controller := Some player\<rparr>;
                       b2 = b1\<lparr>grid := set_spot (grid b1) (nat row) (nat col) flipped\<rparr>;
                       b3 = (if controlledCount b1 player = 1
                             then relinquish b2 player (nat row) (nat col) flipped else b2)
                   in if \<not> checkRep b3 then (Threw AssertionError, releaseLock b3)
                      else (Returned Void, releaseLock (notifyWatchers b3)))))"

definition flipCard :: "Board \<Rightarrow> string \<Rightarrow> int \<Rightarrow> int \<Rightarrow> outcome \<times> Board" where
  "flipCard b player row col =
     (case acquireLock b of
        (True, b1) \<Rightarrow> flipCard_locked b1 player row col
      | (False, b1) \<Rightarrow> (Suspended, b1))"

text \<open>The callback stored by \<open>waitForCard\<close> resolves the promise the call awaits; the
  call then executes \<open>continue\<close>, that is, the loop body again from \<open>acquireLock\<close>.\<close>

definition retryFlip :: "callback \<Rightarrow> Board \<Rightarrow> (outcome \<times> Board) option" where
  "retryFlip k b =
     (case k of FlipRetry player row col \<Rightarrow> Some (flipCard b player row col) | _ \<Rightarrow> None)"

subsection \<open>watch\<close>

text \<open>The watcher is registered under the lock; the call then awaits its promise, and
  once resumed it returns \<open>renderFor(player)\<close>.\<close>

definition watch :: "Board \<Rightarrow> string \<Rightarrow> outcome \<times> Board" where
  "watch b player =
     (case acquireLock b of
        (True, b1) \<Rightarrow> (Suspended, releaseLock (b1\<lparr>watchers := watchers b1 @ [WatchWake player]\<rparr>))
      | (False, b1) \<Rightarrow> (Suspended, b1))"

subsection \<open>mapCards\<close>

text \<open>First pass, locked: the set of card values, in insertion order.\<close>

definition addCard :: "Spot list list \<Rightarrow> nat \<times> nat \<Rightarrow> string list \<Rightarrow> string list" where
  "addCard g rc acc =
     (case spot_at g (fst rc) (snd rc) of
        None \<Rightarrow> acc
      | Some spot \<Rightarrow>
          (case card_spot spot of
             None \<Rightarrow> acc
           | Some v \<Rightarrow> if v \<in> set acc then acc else acc @ [v]))"

definition uniqueCards :: "Board \<Rightarrow> string list" where
  "uniqueCards b = fold (addCard (grid b)) (positions b) []"

definition mapCards_snapshot :: "Board \<Rightarrow> (string list \<times> Board) option" where
  "mapCards_snapshot b =
     (case acquireLock b of
        (True, b1) \<Rightarrow> Some (uniqueCards b1, releaseLock b1)
      | (False, b1) \<Rightarrow> None)"

text \<open>The computation, unlocked: \<open>f\<close> is called on each collected value in turn; the
  second component lists the arguments \<open>f\<close> has been called with.\<close>

fun computeTransforms ::
  "(string \<Rightarrow> string) \<Rightarrow> string list \<Rightarrow> (string \<times> string) list \<Rightarrow> string list
     \<Rightarrow> (error + (string \<times> string) list) \<times> string list" where
  "computeTransforms f [] tc calls = (Inr tc, calls)"
| "computeTransforms f (v # vs) tc calls =
     (let newCard = f v
      in if \<not> CARD_REGEX newCard then (Inl (InvalidTransformedCard newCard), calls @ [v])
         else computeTransforms f vs (AList.update v newCard tc) (calls @ [v]))"

definition mapCards_compute ::
  "(string \<Rightarrow> string) \<Rightarrow> string list \<Rightarrow> (error + (string \<times> string) list) \<times> string list" where
  "mapCards_compute f cards = computeTransforms f cards [] []"

text \<open>Second pass, locked: a spot whose card is a key of the table gets the table's value.\<close>

definition applyTransform :: "(string \<times> string) list \<Rightarrow> nat \<times> nat \<Rightarrow> Spot list list \<Rightarrow> Spot list list" where
  "applyTransform tc rc g =
     (case spot_at g (fst rc) (snd rc) of
        None \<Rightarrow> g
      | Some spot \<Rightarrow>
          (case card_spot spot of
             None \<Rightarrow> g
           | Some v \<Rightarrow>
               (case map_of tc v of
                  None \<Rightarrow> g
                | Some v' \<Rightarrow> set_spot g (fst rc) (snd rc) (spot\<lparr>card_spot := Some v'\<rparr>))))"

definition applied :: "Board \<Rightarrow> (string \<times> string) list \<Rightarrow> Board" where
  "applied b tc = b\<lparr>grid := fold (applyTransform tc) (positions b) (grid b)\<rparr>"

definition mapCards_apply_locked :: "Board \<Rightarrow> (string \<times> string) list \<Rightarrow> string \<Rightarrow> outcome \<times> Board" where
  "mapCards_apply_locked b tc player =
     (let b1 = applied b tc
      in if \<not> checkRep b1 then (Threw AssertionError, releaseLock b1)
         else renderFor (releaseLock (notifyWatchers b1)) player)"

definition mapCards_apply :: "Board \<Rightarrow> (string \<times> string) list \<Rightarrow> string \<Rightarrow> outcome \<times> Board" where
  "mapCards_apply b tc player =
     (case acquireLock b of
        (True, b1) \<Rightarrow> mapCards_apply_locked b1 tc player
      | (False, b1) \<Rightarrow> (Suspended, b1))"


subsection \<open>parseFromFile\<close>

datatype parse_error =
    EmptyBoardFile
  | MissingDimensionLine
  | InvalidDimensionLine
  | NonPositiveDimensions
  | WrongCardCount nat nat
  | InvalidCardLine nat
  | ConstructorAssertion

fun replace_crlf :: "string \<Rightarrow> string" where
  "replace_crlf [] = []"
| "replace_crlf [x] = [x]"
| "replace_crlf (x # y # zs) =
     (if x = CHR 0x0D \<and> y = CHR 0x0A then CHR 0x0A # replace_crlf zs
      else x # replace_crlf (y # zs))"

definition replace_cr :: "string \<Rightarrow> string" where
  "replace_cr s = map (\<lambda>ch. if ch = CHR 0x0D then CHR 0x0A else ch) s"

fun split_lines :: "string \<Rightarrow> string list" where
  "split_lines [] = [[]]"
| "split_lines (x # xs) =
     (if x = CHR 0x0A then [] # split_lines xs
      else (case split_lines xs of [] \<Rightarrow> [[x]] | l # ls \<Rightarrow> (x # l) # ls))"

definition pop_empty :: "string list \<Rightarrow> string list" where
  "pop_empty ls = rev (dropWhile (\<lambda>l. l = []) (rev ls))"

definition trim :: "string \<Rightarrow> string" where
  "trim s = rev (dropWhile is_space (rev (dropWhile is_space s)))"

definition is_digit :: "char \<Rightarrow> bool" where
  "is_digit ch = (ch \<in> set ''0123456789'')"

definition parseInt :: "string \<Rightarrow> nat" where
  "parseInt ds = foldl (\<lambda>n ch. 10 * n + (of_char ch - 48)) 0 ds"

text \<open>\<open>/^(\d+)x(\d+)$/\<close>: the two groups of digits around the letter x.\<close>

definition match_dims :: "string \<Rightarrow> (string \<times> string) option" where
  "match_dims s =
     (let ds1 = takeWhile is_digit s; rest = dropWhile is_digit s
      in case rest of
           [] \<Rightarrow> None
         | x # ds2 \<Rightarrow>
             if x = CHR ''x'' \<and> ds1 \<noteq> [] \<and> ds2 \<noteq> [] \<and> list_all is_digit ds2
             then Some (ds1, ds2) else None)"

definition first_invalid :: "string list \<Rightarrow> nat option" where
  "first_invalid cs =
     (case filter (\<lambda>i. \<not> CARD_REGEX (cs ! i)) [0..<length cs] of
        [] \<Rightarrow> None | i # _ \<Rightarrow> Some i)"

definition parseFromFile :: "string \<Rightarrow> parse_error + Board" where
  "parseFromFile raw =
     (let lines = pop_empty (split_lines (replace_cr (replace_crlf raw)))
      in case lines of
           [] \<Rightarrow> Inl EmptyBoardFile
         | l0 # cardLines \<Rightarrow>
             if trim l0 = [] then Inl MissingDimensionLine
             else
               (case match_dims (trim l0) of
                  None \<Rightarrow> Inl InvalidDimensionLine
                | Some (m1, m2) \<Rightarrow>
                    if parseInt m1 \<le> 0 \<or> parseInt m2 \<le> 0 then Inl NonPositiveDimensions
                    else if length cardLines \<noteq> parseInt m1 * parseInt m2
                    then Inl (WrongCardCount (parseInt m1 * parseInt m2) (length cardLines))
                    else
                      (case first_invalid (map trim cardLines) of
                         Some i \<Rightarrow> Inl (InvalidCardLine (i + 2))
                       | None \<Rightarrow>
                           if checkRep (new_Board (parseInt m1) (parseInt m2) (map trim cardLines))
                           then Inr (new_Board (parseInt m1) (parseInt m2) (map trim cardLines))
                           else Inl ConstructorAssertion)))"

section \<open>Auxiliary notions\<close>

subsection \<open>States between operations\<close>

text \<open>No call holds the lock or waits for it: the state between two operations.\<close>

definition idle :: "Board \<Rightarrow> bool" where
  "idle b = (\<not> lockHeld b \<and> lockWaiters b = [])"

text \<open>The representation invariant of \<open>checkRep\<close> on the grid alone.\<close>

definition grid_ok :: "nat \<Rightarrow> nat \<Rightarrow> Spot list list \<Rightarrow> bool" where
  "grid_ok n m g = (length g = n \<and> (\<forall>row \<in> set g. length row = m \<and> (\<forall>s \<in> set row. spot_ok s)))"

text \<open>Every value a table of the computation phase holds has passed \<open>CARD_REGEX\<close>.\<close>

definition table_ok :: "(string \<times> string) list \<Rightarrow> bool" where
  "table_ok tc = (\<forall>k v. map_of tc k = Some v \<longrightarrow> CARD_REGEX v)"

text \<open>The boards that a parsed board can become: each rule is one locked section run from
  its \<open>acquireLock\<close> to its \<open>releaseLock\<close>. A resumed \<open>flipCard\<close> is again a
  \<open>flipCard\<close> step and a resumed \<open>watch\<close> is a \<open>renderFor\<close> step. The two locked
  phases of \<open>mapCards\<close> are steps of their own, the apply phase with any table the
  computation phase can return, so that other steps may come between them.\<close>

inductive reachable :: "Board \<Rightarrow> bool" where
  parsed: "parseFromFile raw = Inr b \<Longrightarrow> reachable b"
| flipped: "reachable b \<Longrightarrow> reachable (snd (flipCard b player row col))"
| rendered: "reachable b \<Longrightarrow> reachable (snd (renderFor b player))"
| watched: "reachable b \<Longrightarrow> reachable (snd (watch b player))"
| snapshot: "reachable b \<Longrightarrow> mapCards_snapshot b = Some (cards, b') \<Longrightarrow> reachable b'"
| transformed: "reachable b \<Longrightarrow> fst (mapCards_compute f cards) = Inr tc
     \<Longrightarrow> reachable (snd (mapCards_apply b tc player))"

subsection \<open>The loops, spot by spot\<close>

text \<open>A loop body that rewrites the spot it visits, if there is one.\<close>

definition mapSpot :: "(Spot \<Rightarrow> Spot) \<Rightarrow> nat \<times> nat \<Rightarrow> Spot list list \<Rightarrow> Spot list list" where
  "mapSpot h rc g =
     (case spot_at g (fst rc) (snd rc) of None \<Rightarrow> g | Some s \<Rightarrow> set_spot g (fst rc) (snd rc) (h s))"

text \<open>What Rule 3-B does to a spot, and when it notifies the spot's queue.\<close>

definition turnDown :: "Spot \<Rightarrow> Spot" where
  "turnDown s =
     (if card_spot s \<noteq> None \<and> faceUp s \<and> controller s = None then s\<lparr>faceUp := False\<rparr> else s)"

definition lost :: "Spot option \<Rightarrow> bool" where
  "lost sp = (case sp of None \<Rightarrow> False
              | Some s \<Rightarrow> card_spot s \<noteq> None \<and> faceUp s \<and> controller s = None)"

text \<open>What the apply phase of \<open>mapCards\<close> does to a spot and to its card value.\<close>

definition retag :: "(string \<times> string) list \<Rightarrow> Spot \<Rightarrow> Spot" where
  "retag tc s =
     (case card_spot s of
        None \<Rightarrow> s
      | Some v \<Rightarrow> (case map_of tc v of None \<Rightarrow> s | Some v' \<Rightarrow> s\<lparr>card_spot := Some v'\<rparr>))"


subsection \<open>The two stages of flipCard\<close>

text \<open>The cleanup pass of \<open>flipCard\<close> with the notification of the watchers that
  follows it: the board on which the rest of the call runs.\<close>

definition afterCleanup :: "Board \<Rightarrow> string \<Rightarrow> Board" where
  "afterCleanup b player =
     (if fst (cleanupCompletedTurns b player) then notifyWatchers (snd (cleanupCompletedTurns b player))
      else snd (cleanupCompletedTurns b player))"

text \<open>The rest of the loop body of \<open>flipCard\<close>, from the validation of the coordinates
  on; \<open>flipCard_locked\<close> is \<open>attempt\<close> after \<open>afterCleanup\<close>.\<close>

definition attempt :: "Board \<Rightarrow> string \<Rightarrow> int \<Rightarrow> int \<Rightarrow> outcome \<times> Board" where
  "attempt b1 player row col =
     (if row < 0 \<or> row \<ge> int (rows b1) \<or> col < 0 \<or> col \<ge> int (cols b1)
      then (Threw InvalidCoordinates, releaseLock b1)
      else
        (case spot_at (grid b1) (nat row) (nat col) of
           None \<Rightarrow> (Threw NoCardAtPosition, releaseLock b1)
         | Some spot \<Rightarrow>
             if card_spot spot = None then (Threw NoCardAtPosition, releaseLock b1)
             else if controlledCount b1 player \<ge> 2
             then (Threw AlreadyControlTwo, releaseLock b1)
             else if controller spot = Some player \<and> faceUp spot
             then (Threw AlreadyControlledByYou, releaseLock b1)
             else if controlledCount b1 player = 1 \<and> controller spot \<noteq> None
             then (Threw ControlledByAnother, releaseLock b1)
             else if controlledCount b1 player \<noteq> 1 \<and> controller spot \<noteq> None
                     \<and> controller spot \<noteq> Some player
             then (Suspended,
                   releaseLock (waitForCard b1 (nat row) (nat col) (FlipRetry player row col)))
             else
               (let flipped = spot\<lparr>faceUp := True, controller := Some player\<rparr>;
                    b2 = b1\<lparr>grid := set_spot (grid b1) (nat row) (nat col) flipped\<rparr>;
                    b3 = (if controlledCount b1 player = 1
                          then relinquish b2 player (nat row) (nat col) flipped else b2)
                in if \<not> checkRep b3 then (Threw AssertionError, releaseLock b3)
                   else (Returned Void, releaseLock (notifyWatchers b3)))))"

text \<open>The five faults of the validation.\<close>

definition validation_error :: "error \<Rightarrow> bool" where
  "validation_error e =
     (e \<in> {InvalidCoordinates, NoCardAtPosition, AlreadyControlledByYou, AlreadyControlTwo,
            ControlledByAnother})"

text \<open>The condition of Rule 3-A, exactly two cards held and their values equal, and the
  positions it removes.\<close>

definition holdsMatchedPair :: "Board \<Rightarrow> string \<Rightarrow> bool" where
  "holdsMatchedPair b player =
     (length (playerCards b player) = 2
      \<and> snd (snd (playerCards b player ! 0)) = snd (snd (playerCards b player ! 1)))"

definition removedSet :: "Board \<Rightarrow> string \<Rightarrow> (nat \<times> nat) set" where
  "removedSet b player =
     (if holdsMatchedPair b player
      then {(fst (playerCards b player ! 0), fst (snd (playerCards b player ! 0))),
            (fst (playerCards b player ! 1), fst (snd (playerCards b player ! 1)))}
      else {})"

text \<open>The player holds the cards at \<open>x\<close> and \<open>y\<close>, of one value, and no other card.\<close>

definition pairHeld :: "Board \<Rightarrow> string \<Rightarrow> nat \<times> nat \<Rightarrow> nat \<times> nat \<Rightarrow> bool" where
  "pairHeld b player x y =
     (x \<noteq> y \<and> (\<exists>v. set (playerCards b player) = {(fst x, snd x, v), (fst y, snd y, v)}))"


subsection \<open>Example boards\<close>

text \<open>The 2x2 board with cards A, A, B, B, as a file and as an object.\<close>

definition raw22 :: string where
  "raw22 = ''2x2'' @ [CHR 0x0A] @ ''A'' @ [CHR 0x0A] @ ''A'' @ [CHR 0x0A] @ ''B'' @ [CHR 0x0A] @ ''B'' @ [CHR 0x0A]"

definition board22 :: Board where
  "board22 = new_Board 2 2 [''A'', ''A'', ''B'', ''B'']"

text \<open>p1 has flipped (0, 0); then also (0, 1), a matching pair.\<close>

definition b_first :: Board where
  "b_first = snd (flipCard board22 ''p1'' 0 0)"

definition b_pair :: Board where
  "b_pair = snd (flipCard b_first ''p1'' 0 1)"

text \<open>From \<open>b_first\<close>: p2 has flipped (0, 0) and waits; then p1 has flipped (1, 0),
  which does not match.\<close>

definition b_wait :: Board where
  "b_wait = snd (flipCard b_first ''p2'' 0 0)"

definition b_lost :: Board where
  "b_lost = snd (flipCard b_wait ''p1'' 1 0)"

text \<open>From \<open>b_first\<close>: p1 has flipped (1, 0), which does not match; then p2 has
  flipped (0, 0).\<close>

definition b_mis :: Board where
  "b_mis = snd (flipCard b_first ''p1'' 1 0)"

definition b_taken :: Board where
  "b_taken = snd (flipCard b_mis ''p2'' 0 0)"



section \<open>Basic facts\<close>

subsection \<open>Reading and writing spots\<close>

lemma spot_at_Some_iff:
  "spot_at g r c = Some s \<longleftrightarrow> r < length g \<and> c < length (g ! r) \<and> g ! r ! c = s"
  by (auto simp: spot_at_def)

lemma spot_at_set_spot:
  "spot_at (set_spot g r' c' s') r c =
     (if r = r' \<and> c = c' \<and> spot_at g r c \<noteq> None then Some s' else spot_at g r c)"
proof (cases "r = r'")
  case True
  then show ?thesis
    by (cases "c = c'") (auto simp: spot_at_def set_spot_def)
next
  case False
  then show ?thesis
    by (auto simp: spot_at_def set_spot_def)
qed

lemma length_set_spot [simp]: "length (set_spot g r c s) = length g"
  by (simp add: set_spot_def)

lemma checkRep_grid_ok: "checkRep b = grid_ok (rows b) (cols b) (grid b)"
  by (auto simp: checkRep_def grid_ok_def list_all_iff)

lemma grid_ok_set_spot:
  assumes "grid_ok n m g" and "spot_ok s"
  shows "grid_ok n m (set_spot g r c s)"
proof -
  have "\<And>row. row \<in> set (set_spot g r c s) \<Longrightarrow> length row = m \<and> (\<forall>x \<in> set row. spot_ok x)"
  proof -
    fix row assume "row \<in> set (set_spot g r c s)"
    then consider "row = (g ! r)[c := s]" "r < length g" | "row \<in> set g"
      using set_update_subset_insert [of g r "(g ! r)[c := s]"]
      by (cases "r < length g") (auto simp: set_spot_def list_update_beyond)
    then show "length row = m \<and> (\<forall>x \<in> set row. spot_ok x)"
    proof cases
      case 1
      then have "g ! r \<in> set g" by simp
      with assms have old: "length (g ! r) = m" "\<forall>x \<in> set (g ! r). spot_ok x"
        by (auto simp: grid_ok_def)
      have "set row \<subseteq> insert s (set (g ! r))"
        using 1 set_update_subset_insert by fast
      with old assms(2) 1 show ?thesis by auto
    next
      case 2
      with assms show ?thesis by (auto simp: grid_ok_def)
    qed
  qed
  with assms show ?thesis by (auto simp: grid_ok_def)
qed

lemma grid_ok_spot_at: "grid_ok n m g \<Longrightarrow> spot_at g r c = Some s \<Longrightarrow> spot_ok s"
  by (auto simp: grid_ok_def spot_at_Some_iff) (metis nth_mem)

lemma set_spot_same: "spot_at g r c = Some s \<Longrightarrow> set_spot g r c s = g"
  by (auto simp: spot_at_Some_iff set_spot_def)

lemma spot_at_mapSpot:
  "spot_at (mapSpot h rc g) r c =
     (if (r, c) = rc then map_option h (spot_at g r c) else spot_at g r c)"
  by (cases "spot_at g (fst rc) (snd rc)") (auto simp: mapSpot_def spot_at_set_spot)

lemma spot_at_fold_mapSpot:
  "distinct ps \<Longrightarrow>
   spot_at (fold (mapSpot h) ps g) r c =
     (if (r, c) \<in> set ps then map_option h (spot_at g r c) else spot_at g r c)"
  by (induction ps arbitrary: g) (auto simp: spot_at_mapSpot)

lemma grid_ok_mapSpot:
  "(\<And>s. spot_ok s \<Longrightarrow> spot_ok (h s)) \<Longrightarrow> grid_ok n m g \<Longrightarrow> grid_ok n m (mapSpot h rc g)"
  by (cases "spot_at g (fst rc) (snd rc)")
     (auto simp: mapSpot_def intro!: grid_ok_set_spot dest: grid_ok_spot_at)

lemma grid_ok_fold_mapSpot:
  "(\<And>s. spot_ok s \<Longrightarrow> spot_ok (h s)) \<Longrightarrow> grid_ok n m g \<Longrightarrow> grid_ok n m (fold (mapSpot h) ps g)"
  by (induction ps arbitrary: g) (auto intro: grid_ok_mapSpot)

lemma spot_ok_turnDown: "spot_ok s \<Longrightarrow> spot_ok (turnDown s)"
  by (auto simp: spot_ok_def turnDown_def split: option.splits)

lemma spot_ok_removed: "spot_ok removed"
  by (simp add: spot_ok_def removed_def)

lemma distinct_positions: "distinct (positions b)"
  by (simp add: positions_def distinct_product)

lemma in_positions: "(r, c) \<in> set (positions b) \<longleftrightarrow> r < rows b \<and> c < cols b"
  by (auto simp: positions_def)

lemma grid_ok_in_range:
  "grid_ok n m g \<Longrightarrow> spot_at g r c \<noteq> None \<longleftrightarrow> r < n \<and> c < m"
  by (auto simp: grid_ok_def spot_at_def)

subsection \<open>Fields that a helper leaves alone\<close>

lemma notifyCardWaiters_proj [simp]:
  "rows (notifyCardWaiters b r c) = rows b"
  "cols (notifyCardWaiters b r c) = cols b"
  "grid (notifyCardWaiters b r c) = grid b"
  "watchers (notifyCardWaiters b r c) = watchers b"
  "lockHeld (notifyCardWaiters b r c) = lockHeld b"
  "lockWaiters (notifyCardWaiters b r c) = lockWaiters b"
  by (simp_all add: notifyCardWaiters_def split: option.splits)

lemma notifyWatchers_proj [simp]:
  "rows (notifyWatchers b) = rows b"
  "cols (notifyWatchers b) = cols b"
  "grid (notifyWatchers b) = grid b"
  "cardWaiters (notifyWatchers b) = cardWaiters b"
  "lockHeld (notifyWatchers b) = lockHeld b"
  "lockWaiters (notifyWatchers b) = lockWaiters b"
  "watchers (notifyWatchers b) = []"
  by (simp_all add: notifyWatchers_def)

lemma releaseLock_proj [simp]:
  "rows (releaseLock b) = rows b"
  "cols (releaseLock b) = cols b"
  "grid (releaseLock b) = grid b"
  "cardWaiters (releaseLock b) = cardWaiters b"
  "watchers (releaseLock b) = watchers b"
  by (simp_all add: releaseLock_def split: list.splits)

lemma waitForCard_proj [simp]:
  "rows (waitForCard b r c k) = rows b"
  "cols (waitForCard b r c k) = cols b"
  "grid (waitForCard b r c k) = grid b"
  "watchers (waitForCard b r c k) = watchers b"
  "lockHeld (waitForCard b r c k) = lockHeld b"
  "lockWaiters (waitForCard b r c k) = lockWaiters b"
  by (simp_all add: waitForCard_def)

subsection \<open>The representation invariant is preserved\<close>

lemma flipDown_grid:
  "grid (snd (flipDown rc st)) = mapSpot turnDown rc (grid (snd st))"
  by (cases "spot_at (grid (snd st)) (fst rc) (snd rc)")
     (auto simp: flipDown_def mapSpot_def turnDown_def set_spot_same)

lemma flipDown_dims [simp]:
  "rows (snd (flipDown rc st)) = rows (snd st)"
  "cols (snd (flipDown rc st)) = cols (snd st)"
  "watchers (snd (flipDown rc st)) = watchers (snd st)"
  "lockHeld (snd (flipDown rc st)) = lockHeld (snd st)"
  "lockWaiters (snd (flipDown rc st)) = lockWaiters (snd st)"
  by (simp_all add: flipDown_def split: option.splits)

lemma fold_flipDown_grid:
  "grid (snd (fold flipDown ps st)) = fold (mapSpot turnDown) ps (grid (snd st))"
  by (induction ps arbitrary: st) (simp_all add: flipDown_grid)

lemma fold_flipDown_dims [simp]:
  "rows (snd (fold flipDown ps st)) = rows (snd st)"
  "cols (snd (fold flipDown ps st)) = cols (snd st)"
  "watchers (snd (fold flipDown ps st)) = watchers (snd st)"
  "lockHeld (snd (fold flipDown ps st)) = lockHeld (snd st)"
  "lockWaiters (snd (fold flipDown ps st)) = lockWaiters (snd st)"
  by (induction ps arbitrary: st) simp_all

lemma removeMatched_dims [simp]:
  "rows (snd (removeMatched b p)) = rows b"
  "cols (snd (removeMatched b p)) = cols b"
  "watchers (snd (removeMatched b p)) = watchers b"
  "lockHeld (snd (removeMatched b p)) = lockHeld b"
  "lockWaiters (snd (removeMatched b p)) = lockWaiters b"
  by (simp_all add: removeMatched_def Let_def)

lemma removeMatched_grid_ok:
  "grid_ok n m (grid b) \<Longrightarrow> grid_ok n m (grid (snd (removeMatched b p)))"
  by (auto simp: removeMatched_def Let_def spot_ok_removed intro!: grid_ok_set_spot)

lemma cleanup_dims [simp]:
  "rows (snd (cleanupCompletedTurns b p)) = rows b"
  "cols (snd (cleanupCompletedTurns b p)) = cols b"
  "watchers (snd (cleanupCompletedTurns b p)) = watchers b"
  "lockHeld (snd (cleanupCompletedTurns b p)) = lockHeld b"
  "lockWaiters (snd (cleanupCompletedTurns b p)) = lockWaiters b"
  by (simp_all add: cleanupCompletedTurns_def)

lemma cleanup_grid_ok:
  "grid_ok n m (grid b) \<Longrightarrow> grid_ok n m (grid (snd (cleanupCompletedTurns b p)))"
  by (simp add: cleanupCompletedTurns_def fold_flipDown_grid grid_ok_fold_mapSpot
        spot_ok_turnDown removeMatched_grid_ok)

lemma applyTransform_mapSpot: "applyTransform tc rc g = mapSpot (retag tc) rc g"
  by (cases "spot_at g (fst rc) (snd rc)")
     (auto simp: applyTransform_def mapSpot_def retag_def set_spot_same split: option.splits)

lemma applyTransform_mapSpot': "applyTransform tc = mapSpot (retag tc)"
  by (intro ext) (rule applyTransform_mapSpot)

lemma spot_ok_retag: "table_ok tc \<Longrightarrow> spot_ok s \<Longrightarrow> spot_ok (retag tc s)"
  by (auto simp: spot_ok_def retag_def table_ok_def split: option.splits)

lemma computeTransforms_table_ok:
  "computeTransforms f vs tc calls = (Inr tc', calls') \<Longrightarrow> table_ok tc \<Longrightarrow> table_ok tc'"
proof (induction vs arbitrary: tc calls)
  case Nil
  then show ?case by simp
next
  case (Cons v vs)
  from Cons.prems(1) have ok: "CARD_REGEX (f v)"
    by (auto simp: Let_def split: if_splits)
  with Cons.prems(1)
  have "computeTransforms f vs (AList.update v (f v) tc) (calls @ [v]) = (Inr tc', calls')"
    by (simp add: Let_def)
  moreover have "table_ok (AList.update v (f v) tc)"
    using Cons.prems(2) ok by (auto simp: table_ok_def update_conv')
  ultimately show ?case by (rule Cons.IH)
qed

lemma mapCards_compute_table_ok:
  "fst (mapCards_compute f cards) = Inr tc \<Longrightarrow> table_ok tc"
  using computeTransforms_table_ok [of f cards "[]" "[]" tc "snd (mapCards_compute f cards)"]
  by (simp add: mapCards_compute_def table_ok_def prod_eq_iff)

lemma applied_checkRep: "table_ok tc \<Longrightarrow> checkRep b \<Longrightarrow> checkRep (applied b tc)"
  by (simp add: checkRep_grid_ok applied_def applyTransform_mapSpot' grid_ok_fold_mapSpot spot_ok_retag)

lemma relinquish_dims [simp]:
  "rows (relinquish b p r c sp) = rows b"
  "cols (relinquish b p r c sp) = cols b"
  "watchers (relinquish b p r c sp) = watchers b"
  "cardWaiters (relinquish b p r c sp) = cardWaiters b"
  "lockHeld (relinquish b p r c sp) = lockHeld b"
  "lockWaiters (relinquish b p r c sp) = lockWaiters b"
  "resumed (relinquish b p r c sp) = resumed b"
  by (simp_all add: relinquish_def Let_def split: option.splits prod.splits)

lemma relinquish_grid_ok:
  assumes "grid_ok n m (grid b)" and "spot_ok (sp\<lparr>controller := None\<rparr>)"
  shows "grid_ok n m (grid (relinquish b p r c sp))"
proof -
  have drop: "\<And>s. spot_ok s \<Longrightarrow> spot_ok (s\<lparr>controller := None\<rparr>)"
    by (auto simp: spot_ok_def split: option.splits)
  have g1: "grid_ok n m (set_spot (grid b) r c (sp\<lparr>controller := None\<rparr>))"
    using assms by (rule grid_ok_set_spot)
  show ?thesis
    using assms(1) g1
    by (auto simp: relinquish_def Let_def split: option.splits prod.splits
          intro!: grid_ok_set_spot drop dest: grid_ok_spot_at)
qed

lemma checkRep_simps [simp]:
  "checkRep (releaseLock b) = checkRep b"
  "checkRep (notifyWatchers b) = checkRep b"
  "checkRep (notifyCardWaiters b r c) = checkRep b"
  "checkRep (waitForCard b r c k) = checkRep b"
  "checkRep (b\<lparr>lockHeld := h\<rparr>) = checkRep b"
  "checkRep (b\<lparr>lockWaiters := lw\<rparr>) = checkRep b"
  "checkRep (b\<lparr>watchers := ws\<rparr>) = checkRep b"
  by (simp_all add: checkRep_def)

lemma flipped_ok:
  "spot_ok s \<Longrightarrow> card_spot s \<noteq> None \<Longrightarrow> spot_ok (s\<lparr>faceUp := True, controller := q\<rparr>)"
  by (auto simp: spot_ok_def split: option.splits)

lemma flipCard_locked_checkRep:
  assumes "checkRep b"
  shows "checkRep (snd (flipCard_locked b p row col))"
proof -
  define b1 where "b1 = (if fst (cleanupCompletedTurns b p)
      then notifyWatchers (snd (cleanupCompletedTurns b p)) else snd (cleanupCompletedTurns b p))"
  have ok1: "grid_ok (rows b) (cols b) (grid b1)" and dims: "rows b1 = rows b" "cols b1 = cols b"
    using assms by (auto simp: b1_def checkRep_grid_ok cleanup_grid_ok)
  have rep1: "checkRep b1" using ok1 dims by (simp add: checkRep_grid_ok)
  have easy: "\<And>x. grid x = grid b1 \<Longrightarrow> rows x = rows b \<Longrightarrow> cols x = cols b \<Longrightarrow> checkRep x"
    using ok1 by (simp add: checkRep_grid_ok)
  have fin: "checkRep (b1\<lparr>grid := set_spot (grid b1) r c (s\<lparr>faceUp := True, controller := Some p\<rparr>)\<rparr>)"
       "checkRep (relinquish (b1\<lparr>grid := set_spot (grid b1) r c (s\<lparr>faceUp := True, controller := Some p\<rparr>)\<rparr>)
                    p r c (s\<lparr>faceUp := True, controller := Some p\<rparr>))"
    if "spot_at (grid b1) r c = Some s" "card_spot s \<noteq> None" for r c s
  proof -
    have s: "spot_ok s" using ok1 that(1) by (rule grid_ok_spot_at)
    show g2: "checkRep (b1\<lparr>grid := set_spot (grid b1) r c (s\<lparr>faceUp := True, controller := Some p\<rparr>)\<rparr>)"
      using ok1 s that(2) by (simp add: checkRep_grid_ok dims grid_ok_set_spot flipped_ok)
    have "spot_ok (s\<lparr>faceUp := True, controller := Some p, controller := None\<rparr>)"
      using flipped_ok [OF s that(2), of None] by simp
    with g2 show "checkRep (relinquish (b1\<lparr>grid := set_spot (grid b1) r c (s\<lparr>faceUp := True, controller := Some p\<rparr>)\<rparr>)
                    p r c (s\<lparr>faceUp := True, controller := Some p\<rparr>))"
      by (simp add: checkRep_grid_ok relinquish_grid_ok)
  qed
  show ?thesis
    unfolding flipCard_locked_def Let_def b1_def [symmetric]
    by (auto simp: rep1 fin split: option.splits)
qed

lemma flipCard_checkRep: "checkRep b \<Longrightarrow> checkRep (snd (flipCard b p row col))"
  by (auto simp: flipCard_def acquireLock_def flipCard_locked_checkRep)

lemma renderFor_checkRep: "checkRep b \<Longrightarrow> checkRep (snd (renderFor b p))"
  by (auto simp: renderFor_def renderFor_locked_def acquireLock_def)

lemma watch_checkRep: "checkRep b \<Longrightarrow> checkRep (snd (watch b p))"
  by (auto simp: watch_def acquireLock_def)

lemma snapshot_checkRep: "checkRep b \<Longrightarrow> mapCards_snapshot b = Some (cards, b') \<Longrightarrow> checkRep b'"
  by (auto simp: mapCards_snapshot_def acquireLock_def split: if_splits)

lemma applied_simps [simp]:
  "applied (b\<lparr>lockHeld := h\<rparr>) tc = (applied b tc)\<lparr>lockHeld := h\<rparr>"
  by (simp add: applied_def positions_def)

lemma apply_checkRep:
  "checkRep b \<Longrightarrow> table_ok tc \<Longrightarrow> checkRep (snd (mapCards_apply b tc p))"
  by (auto simp: mapCards_apply_def mapCards_apply_locked_def acquireLock_def Let_def
        applied_checkRep renderFor_checkRep)

lemma parseFromFile_checkRep: "parseFromFile raw = Inr b \<Longrightarrow> checkRep b"
  by (auto simp: parseFromFile_def Let_def split: list.splits if_splits option.splits prod.splits)

lemma reachable_checkRep: "reachable b \<Longrightarrow> checkRep b"
  by (induction rule: reachable.induct)
     (auto intro: parseFromFile_checkRep flipCard_checkRep renderFor_checkRep watch_checkRep
        snapshot_checkRep apply_checkRep mapCards_compute_table_ok)

lemma parse22: "parseFromFile raw22 = Inr board22"
  by code_simp

subsection \<open>The cleanup pass, spot by spot\<close>

lemma heldCard_Some:
  "heldCard g p rc = Some x \<longleftrightarrow>
     (\<exists>s v. spot_at g (fst rc) (snd rc) = Some s \<and> card_spot s = Some v
        \<and> controller s = Some p \<and> faceUp s \<and> v \<noteq> [] \<and> x = (fst rc, snd rc, v))"
  by (auto simp: heldCard_def split: option.splits)

lemma set_map_filter_eq: "set (List.map_filter f xs) = {y. \<exists>x \<in> set xs. f x = Some y}"
  by (induction xs) (auto split: option.splits)

lemma in_playerCards:
  "(r, c, v) \<in> set (playerCards b p) \<longleftrightarrow>
     (r, c) \<in> set (positions b) \<and> heldCard (grid b) p (r, c) = Some (r, c, v)"
  by (force simp: playerCards_def set_map_filter_eq heldCard_Some)

lemma playerCards_nth_held:
  assumes "i < length (playerCards b p)"
  shows "spot_at (grid b) (fst (playerCards b p ! i)) (fst (snd (playerCards b p ! i))) \<noteq> None"
proof -
  obtain r c v where x: "playerCards b p ! i = (r, c, v)" by (metis prod_cases3)
  with assms have "(r, c, v) \<in> set (playerCards b p)" by (metis nth_mem)
  with x show ?thesis by (auto simp: in_playerCards heldCard_Some)
qed

lemma spot_at_removeMatched:
  "spot_at (grid (snd (removeMatched b p))) r c =
     (if (r, c) \<in> removedSet b p then Some removed else spot_at (grid b) r c)"
proof (cases "holdsMatchedPair b p")
  case True
  then have len: "length (playerCards b p) = 2" by (simp add: holdsMatchedPair_def)
  have "spot_at (grid b) (fst (playerCards b p ! 0)) (fst (snd (playerCards b p ! 0))) \<noteq> None"
       "spot_at (grid b) (fst (playerCards b p ! 1)) (fst (snd (playerCards b p ! 1))) \<noteq> None"
    using playerCards_nth_held [of 0 b p] playerCards_nth_held [of 1 b p] len by simp_all
  with True show ?thesis
    by (auto simp: removeMatched_def Let_def removedSet_def holdsMatchedPair_def spot_at_set_spot)
next
  case False
  then show ?thesis
    by (auto simp: removeMatched_def Let_def removedSet_def holdsMatchedPair_def)
qed

lemma turnDown_removed [simp]: "turnDown removed = removed"
  by (simp add: turnDown_def removed_def)

lemma cleanup_grid:
  "grid (snd (cleanupCompletedTurns b p)) =
     fold (mapSpot turnDown) (positions b) (grid (snd (removeMatched b p)))"
  by (simp add: cleanupCompletedTurns_def fold_flipDown_grid)

lemma checkRep_in_range:
  "checkRep b \<Longrightarrow> spot_at (grid b) r c \<noteq> None \<longleftrightarrow> (r, c) \<in> set (positions b)"
  using grid_ok_in_range [of "rows b" "cols b" "grid b" r c]
  by (simp add: checkRep_grid_ok in_positions)

lemma spot_at_cleanup:
  assumes "checkRep b"
  shows "spot_at (grid (snd (cleanupCompletedTurns b p))) r c =
     (if (r, c) \<in> removedSet b p then Some removed else map_option turnDown (spot_at (grid b) r c))"
proof -
  have ok': "grid_ok (rows b) (cols b) (grid (snd (removeMatched b p)))"
    using assms by (simp add: checkRep_grid_ok removeMatched_grid_ok)
  have rng: "spot_at (grid (snd (removeMatched b p))) r c \<noteq> None \<longleftrightarrow> (r, c) \<in> set (positions b)"
    using grid_ok_in_range [OF ok', of r c] by (simp add: in_positions)
  show ?thesis
  proof (cases "(r, c) \<in> set (positions b)")
    case True
    then show ?thesis
      by (simp add: cleanup_grid spot_at_fold_mapSpot distinct_positions spot_at_removeMatched)
  next
    case False
    with rng have "spot_at (grid (snd (removeMatched b p))) r c = None" by simp
    with False show ?thesis
      by (auto simp: cleanup_grid spot_at_fold_mapSpot distinct_positions spot_at_removeMatched
            split: if_splits)
  qed
qed

lemma spot_at_afterCleanup:
  "checkRep b \<Longrightarrow> spot_at (grid (afterCleanup b p)) r c =
     (if (r, c) \<in> removedSet b p then Some removed else map_option turnDown (spot_at (grid b) r c))"
  by (simp add: afterCleanup_def spot_at_cleanup)

lemma afterCleanup_dims [simp]:
  "rows (afterCleanup b p) = rows b" "cols (afterCleanup b p) = cols b"
  "lockHeld (afterCleanup b p) = lockHeld b" "lockWaiters (afterCleanup b p) = lockWaiters b"
  by (simp_all add: afterCleanup_def)

lemma positions_cong: "rows b' = rows b \<Longrightarrow> cols b' = cols b \<Longrightarrow> positions b' = positions b"
  by (simp add: positions_def)

lemma afterCleanup_checkRep: "checkRep b \<Longrightarrow> checkRep (afterCleanup b p)"
  by (simp add: afterCleanup_def checkRep_grid_ok cleanup_grid_ok)

subsection \<open>A flip that fails\<close>

lemma flipCard_locked_attempt:
  "flipCard_locked b p row col = attempt (afterCleanup b p) p row col"
  by (simp add: flipCard_locked_def attempt_def afterCleanup_def Let_def)

lemma attempt_threw_aux:
  "case fst (attempt b1 p row col) of
     Threw e \<Rightarrow> validation_error e \<longrightarrow> snd (attempt b1 p row col) = releaseLock b1
   | _ \<Rightarrow> True"
  by (simp add: attempt_def Let_def validation_error_def split: option.split)

lemma attempt_threw:
  "fst (attempt b1 p row col) = Threw e \<Longrightarrow> validation_error e
     \<Longrightarrow> snd (attempt b1 p row col) = releaseLock b1"
  using attempt_threw_aux [of b1 p row col] by simp

lemma fold_flipDown_unchanged:
  "fst (fold flipDown ps st) = False \<Longrightarrow> fold flipDown ps st = st"
proof (induction ps arbitrary: st)
  case Nil
  then show ?case by simp
next
  case (Cons x xs)
  then have 1: "fold flipDown xs (flipDown x st) = flipDown x st" by simp
  with Cons.prems have "fst (flipDown x st) = False" by simp
  then have "flipDown x st = st"
    by (auto simp: flipDown_def split: option.splits if_splits)
  with 1 show ?case by simp
qed

lemma removeMatched_unchanged: "fst (removeMatched b p) = False \<Longrightarrow> snd (removeMatched b p) = b"
  by (auto simp: removeMatched_def Let_def split: if_splits)

lemma fold_flipDown_mono: "fst st \<Longrightarrow> fst (fold flipDown ps st)"
  by (induction ps arbitrary: st) (auto simp: flipDown_def split: option.splits)

lemma cleanup_unchanged:
  assumes "fst (cleanupCompletedTurns b p) = False"
  shows "snd (cleanupCompletedTurns b p) = b"
proof -
  have "fst (removeMatched b p) = False"
    using assms fold_flipDown_mono [of "removeMatched b p" "positions b"]
    by (auto simp: cleanupCompletedTurns_def)
  moreover have "cleanupCompletedTurns b p = removeMatched b p"
    using assms fold_flipDown_unchanged [of "positions b" "removeMatched b p"]
    by (simp add: cleanupCompletedTurns_def)
  ultimately show ?thesis by (simp add: removeMatched_unchanged)
qed

lemma release_acquired:
  "\<not> lockHeld b \<Longrightarrow> lockWaiters b = [] \<Longrightarrow> releaseLock (b\<lparr>lockHeld := True\<rparr>) = b"
  by (simp add: releaseLock_def)

lemma notifyCardWaiters_lock:
  "notifyCardWaiters (b\<lparr>lockHeld := h\<rparr>) r c = (notifyCardWaiters b r c)\<lparr>lockHeld := h\<rparr>"
  by (simp add: notifyCardWaiters_def split: option.splits)

lemma lock_grid_commute:
  "(b\<lparr>lockHeld := h\<rparr>)\<lparr>grid := g\<rparr> = (b\<lparr>grid := g\<rparr>)\<lparr>lockHeld := h\<rparr>"
  by simp

lemma playerCards_lock [simp]: "playerCards (b\<lparr>lockHeld := h\<rparr>) p = playerCards b p"
  by (simp add: playerCards_def positions_def)

lemma removeMatched_lock:
  "removeMatched (b\<lparr>lockHeld := h\<rparr>) p =
     (fst (removeMatched b p), (snd (removeMatched b p))\<lparr>lockHeld := h\<rparr>)"
  by (auto simp: removeMatched_def Let_def lock_grid_commute notifyCardWaiters_lock)

lemma flipDown_lock:
  "flipDown rc (d, b\<lparr>lockHeld := h\<rparr>) =
     (fst (flipDown rc (d, b)), (snd (flipDown rc (d, b)))\<lparr>lockHeld := h\<rparr>)"
  by (auto simp: flipDown_def lock_grid_commute notifyCardWaiters_lock split: option.split)

lemma fold_flipDown_lock:
  "fold flipDown ps (d, b\<lparr>lockHeld := h\<rparr>) =
     (fst (fold flipDown ps (d, b)), (snd (fold flipDown ps (d, b)))\<lparr>lockHeld := h\<rparr>)"
proof (induction ps arbitrary: d b)
  case Nil
  then show ?case by simp
next
  case (Cons x xs)
  show ?case
    using Cons.IH [of "fst (flipDown x (d, b))" "snd (flipDown x (d, b))"]
    by (simp add: flipDown_lock)
qed

lemma cleanup_lock:
  "cleanupCompletedTurns (b\<lparr>lockHeld := h\<rparr>) p =
     (fst (cleanupCompletedTurns b p), (snd (cleanupCompletedTurns b p))\<lparr>lockHeld := h\<rparr>)"
  using fold_flipDown_lock [where ps = "positions b" and d = "fst (removeMatched b p)"
      and b = "snd (removeMatched b p)" and h = h]
  by (simp add: cleanupCompletedTurns_def removeMatched_lock positions_def)

lemma afterCleanup_lock:
  "afterCleanup (b\<lparr>lockHeld := h\<rparr>) p = (afterCleanup b p)\<lparr>lockHeld := h\<rparr>"
  by (simp add: afterCleanup_def cleanup_lock notifyWatchers_def)

lemma afterCleanup_unchanged:
  "fst (cleanupCompletedTurns b p) = False \<Longrightarrow> afterCleanup b p = b"
  by (simp add: afterCleanup_def cleanup_unchanged)

lemma flipCard_idle:
  "idle b \<Longrightarrow> flipCard b p row col = attempt ((afterCleanup b p)\<lparr>lockHeld := True\<rparr>) p row col"
  by (simp add: idle_def flipCard_def acquireLock_def flipCard_locked_attempt afterCleanup_lock)

subsection \<open>Cards held and cards counted\<close>

lemma removedSet_empty: "removedSet b p = {} \<longleftrightarrow> \<not> holdsMatchedPair b p"
  by (simp add: removedSet_def)

lemma controls_held:
  assumes "checkRep b"
  shows "controls (grid b) p rc \<longleftrightarrow> heldCard (grid b) p rc \<noteq> None"
proof (cases "spot_at (grid b) (fst rc) (snd rc)")
  case None
  then show ?thesis by (simp add: controls_def heldCard_def)
next
  case (Some s)
  then have "spot_ok s"
    using assms by (auto simp: checkRep_grid_ok dest: grid_ok_spot_at)
  then show ?thesis
    using Some by (auto simp: controls_def heldCard_def spot_ok_def CARD_REGEX_def split: option.splits)
qed

lemma length_map_filter: "length (List.map_filter f xs) = length (filter (\<lambda>x. f x \<noteq> None) xs)"
  by (simp add: map_filter_def)

lemma controlledCount_playerCards:
  "checkRep b \<Longrightarrow> controlledCount b p = length (playerCards b p)"
  by (simp add: controlledCount_def playerCards_def length_map_filter controls_held cong: filter_cong)

lemma map_filter_cong':
  "(\<And>x. x \<in> set xs \<Longrightarrow> f x = g x) \<Longrightarrow> List.map_filter f xs = List.map_filter g xs"
  by (induction xs) (auto split: option.splits)

lemma map_filter_all_None:
  "(\<And>x. x \<in> set xs \<Longrightarrow> f x = None) \<Longrightarrow> List.map_filter f xs = []"
  by (induction xs) auto

lemma heldCard_turnDown:
  "spot_at g' (fst rc) (snd rc) = map_option turnDown (spot_at g (fst rc) (snd rc))
     \<Longrightarrow> heldCard g' q rc = heldCard g q rc"
  by (cases "spot_at g (fst rc) (snd rc)") (auto simp: heldCard_def turnDown_def split: option.splits)

lemma heldCard_afterCleanup:
  assumes "checkRep b"
  shows "heldCard (grid (afterCleanup b p)) q rc =
     (if rc \<in> removedSet b p then None else heldCard (grid b) q rc)"
proof (cases "rc \<in> removedSet b p")
  case True
  then have "spot_at (grid (afterCleanup b p)) (fst rc) (snd rc) = Some removed"
    using spot_at_afterCleanup [OF assms, of p "fst rc" "snd rc"] by simp
  with True show ?thesis by (simp add: heldCard_def removed_def)
next
  case False
  then have "spot_at (grid (afterCleanup b p)) (fst rc) (snd rc)
      = map_option turnDown (spot_at (grid b) (fst rc) (snd rc))"
    using spot_at_afterCleanup [OF assms, of p "fst rc" "snd rc"] by simp
  with False show ?thesis by (simp add: heldCard_turnDown)
qed

lemma length2_set: "length xs = 2 \<Longrightarrow> set xs = {xs ! 0, xs ! 1}"
  by (cases xs; cases "tl xs") auto

lemma removedSet_all:
  assumes "removedSet b p \<noteq> {}" and "(r, c, v) \<in> set (playerCards b p)"
  shows "(r, c) \<in> removedSet b p"
proof -
  from assms(1) have hp: "holdsMatchedPair b p" by (simp add: removedSet_def split: if_splits)
  then have "length (playerCards b p) = 2" by (simp add: holdsMatchedPair_def)
  from length2_set [OF this] assms(2)
  have "(r, c, v) = playerCards b p ! 0 \<or> (r, c, v) = playerCards b p ! 1" by auto
  then show ?thesis
    using hp by (auto simp: removedSet_def dest: arg_cong [where f = fst]
        arg_cong [where f = "\<lambda>x. fst (snd x)"])
qed

lemma playerCards_afterCleanup:
  assumes "checkRep b"
  shows "playerCards (afterCleanup b p) p = (if removedSet b p = {} then playerCards b p else [])"
proof (cases "removedSet b p = {}")
  case True
  then have "heldCard (grid (afterCleanup b p)) p = heldCard (grid b) p"
    by (intro ext) (simp add: heldCard_afterCleanup [OF assms])
  with True show ?thesis
    by (simp add: playerCards_def positions_def)
next
  case False
  have "heldCard (grid (afterCleanup b p)) p rc = None" if "rc \<in> set (positions b)" for rc
  proof (cases "rc \<in> removedSet b p")
    case True
    then show ?thesis by (simp add: heldCard_afterCleanup [OF assms])
  next
    case nin: False
    have "heldCard (grid b) p rc = None"
    proof (rule ccontr)
      assume "heldCard (grid b) p rc \<noteq> None"
      then obtain v where "heldCard (grid b) p rc = Some (fst rc, snd rc, v)"
        by (auto simp: heldCard_Some)
      with that have "(fst rc, snd rc, v) \<in> set (playerCards b p)"
        by (simp add: in_playerCards)
      from removedSet_all [OF False this] nin show False by simp
    qed
    with nin show ?thesis by (simp add: heldCard_afterCleanup [OF assms])
  qed
  then have "List.map_filter (heldCard (grid (afterCleanup b p)) p) (positions b) = []"
    by (rule map_filter_all_None)
  then have "playerCards (afterCleanup b p) p = []"
    by (simp add: playerCards_def positions_def)
  with False show ?thesis by simp
qed

lemma flipCard_locked_own_card:
  assumes "checkRep b" and "0 \<le> row" and "0 \<le> col"
      and "spot_at (grid b) (nat row) (nat col) = Some s"
      and "controller s = Some p" and "faceUp s"
  shows "fst (flipCard_locked b p row col) =
           Threw (if holdsMatchedPair b p then NoCardAtPosition
                  else if controlledCount b p \<ge> 2 then AlreadyControlTwo
                  else AlreadyControlledByYou)"
proof -
  let ?b1 = "afterCleanup b p"
  have rep1: "checkRep ?b1" using assms(1) by (rule afterCleanup_checkRep)
  have "(nat row, nat col) \<in> set (positions b)"
    using checkRep_in_range [OF assms(1), of "nat row" "nat col"] assms(4) by simp
  then have inr: "\<not> (row < 0 \<or> row \<ge> int (rows ?b1) \<or> col < 0 \<or> col \<ge> int (cols ?b1))"
    using assms(2,3) by (auto simp: in_positions)
  have ok: "spot_ok s"
    using assms(1,4) by (auto simp: checkRep_grid_ok dest: grid_ok_spot_at)
  then obtain v where v: "card_spot s = Some v" "v \<noteq> []"
    using assms(5) by (auto simp: spot_ok_def CARD_REGEX_def split: option.splits)
  have held: "(nat row, nat col, v) \<in> set (playerCards b p)"
    using \<open>(nat row, nat col) \<in> set (positions b)\<close> assms(4,5,6) v
    by (simp add: in_playerCards heldCard_Some)
  show ?thesis
  proof (cases "holdsMatchedPair b p")
    case True
    then have "removedSet b p \<noteq> {}" by (simp add: removedSet_empty)
    from removedSet_all [OF this held]
    have "spot_at (grid ?b1) (nat row) (nat col) = Some removed"
      by (simp add: spot_at_afterCleanup [OF assms(1)])
    with True inr show ?thesis
      by (simp add: flipCard_locked_attempt attempt_def removed_def)
  next
    case False
    then have e: "removedSet b p = {}" by (simp add: removedSet_empty)
    have "turnDown s = s" using assms(5) by (simp add: turnDown_def)
    then have sp: "spot_at (grid ?b1) (nat row) (nat col) = Some s"
      using e assms(4) by (simp add: spot_at_afterCleanup [OF assms(1)])
    have cnt: "controlledCount ?b1 p = controlledCount b p"
      using e by (simp add: controlledCount_playerCards rep1 assms(1) playerCards_afterCleanup)
    from False inr sp cnt v assms(5,6) show ?thesis
      by (simp add: flipCard_locked_attempt attempt_def)
  qed
qed

lemma b_pair_eval:
  "b_pair = board22\<lparr>grid := [[\<lparr>card_spot = Some ''A'', faceUp = True, controller = Some ''p1''\<rparr>,
          \<lparr>card_spot = Some ''A'', faceUp = True, controller = Some ''p1''\<rparr>],
         [\<lparr>card_spot = Some ''B'', faceUp = False, controller = None\<rparr>,
          \<lparr>card_spot = Some ''B'', faceUp = False, controller = None\<rparr>]]\<rparr>"
  by code_simp

lemma holdsMatchedPair_lock [simp]: "holdsMatchedPair (b\<lparr>lockHeld := h\<rparr>) p = holdsMatchedPair b p"
  by (simp add: holdsMatchedPair_def)

lemma controlledCount_lock [simp]: "controlledCount (b\<lparr>lockHeld := h\<rparr>) p = controlledCount b p"
  by (simp add: controlledCount_def positions_def)

lemma flipCard_idle_locked:
  "idle b \<Longrightarrow> flipCard b p row col = flipCard_locked (b\<lparr>lockHeld := True\<rparr>) p row col"
  by (simp add: idle_def flipCard_def acquireLock_def)

lemma idle_release:
  "idle b \<Longrightarrow> releaseLock ((afterCleanup b p)\<lparr>lockHeld := True\<rparr>) = afterCleanup b p"
proof -
  assume "idle b"
  then have "\<not> lockHeld (afterCleanup b p)" "lockWaiters (afterCleanup b p) = []"
    by (simp_all add: idle_def)
  then show ?thesis by (rule release_acquired)
qed

lemma reachable_b_pair: "reachable b_pair"
  unfolding b_pair_def b_first_def
  by (intro reachable.flipped reachable.parsed) (rule parse22)

subsection \<open>The queues of waiters\<close>

lemma map_of_notifyCardWaiters:
  "map_of (cardWaiters (notifyCardWaiters b r c)) x =
     (if x = (r, c) then None else map_of (cardWaiters b) x)"
  by (auto simp: notifyCardWaiters_def delete_conv' split: option.splits)

lemma flipDown_cardWaiters:
  "map_of (cardWaiters (snd (flipDown rc st))) x =
     (if x = rc \<and> lost (spot_at (grid (snd st)) (fst rc) (snd rc)) then None
      else map_of (cardWaiters (snd st)) x)"
  by (cases "spot_at (grid (snd st)) (fst rc) (snd rc)")
     (auto simp: flipDown_def lost_def map_of_notifyCardWaiters)

lemma lost_mapSpot_other:
  "x \<noteq> rc \<Longrightarrow> spot_at (mapSpot h rc g) (fst x) (snd x) = spot_at g (fst x) (snd x)"
  by (cases x; cases rc) (auto simp: spot_at_mapSpot)

lemma fold_flipDown_cardWaiters:
  "distinct ps \<Longrightarrow>
   map_of (cardWaiters (snd (fold flipDown ps st))) x =
     (if x \<in> set ps \<and> lost (spot_at (grid (snd st)) (fst x) (snd x)) then None
      else map_of (cardWaiters (snd st)) x)"
proof (induction ps arbitrary: st)
  case Nil
  then show ?case by simp
next
  case (Cons y ps)
  have IH: "map_of (cardWaiters (snd (fold flipDown ps (flipDown y st)))) x =
     (if x \<in> set ps \<and> lost (spot_at (grid (snd (flipDown y st))) (fst x) (snd x)) then None
      else map_of (cardWaiters (snd (flipDown y st))) x)"
    using Cons.prems by (intro Cons.IH) simp
  show ?case
  proof (cases "x = y")
    case True
    with Cons.prems have "x \<notin> set ps" by simp
    with True IH show ?thesis by (simp add: flipDown_cardWaiters)
  next
    case False
    then show ?thesis
      using IH by (simp add: flipDown_cardWaiters flipDown_grid lost_mapSpot_other)
  qed
qed

lemma removeMatched_cardWaiters:
  "map_of (cardWaiters (snd (removeMatched b p))) x =
     (if x \<in> removedSet b p then None else map_of (cardWaiters b) x)"
proof (cases "holdsMatchedPair b p")
  case True
  then have len: "length (playerCards b p) = 2" by (simp add: holdsMatchedPair_def)
  have "spot_at (grid b) (fst (playerCards b p ! 0)) (fst (snd (playerCards b p ! 0))) \<noteq> None"
       "spot_at (grid b) (fst (playerCards b p ! 1)) (fst (snd (playerCards b p ! 1))) \<noteq> None"
    using playerCards_nth_held [of 0 b p] playerCards_nth_held [of 1 b p] len by simp_all
  with True show ?thesis
    by (auto simp: removeMatched_def Let_def removedSet_def holdsMatchedPair_def
          map_of_notifyCardWaiters)
next
  case False
  then show ?thesis
    by (auto simp: removeMatched_def Let_def removedSet_def holdsMatchedPair_def)
qed

lemma cardWaiters_afterCleanup:
  "map_of (cardWaiters (afterCleanup b p)) x =
     (if x \<in> removedSet b p
         \<or> (x \<in> set (positions b) \<and> lost (spot_at (grid b) (fst x) (snd x)))
      then None else map_of (cardWaiters b) x)"
proof -
  have "\<not> lost (Some removed)" by (simp add: lost_def removed_def)
  then show ?thesis
    by (auto simp: afterCleanup_def cleanupCompletedTurns_def fold_flipDown_cardWaiters
          distinct_positions removeMatched_cardWaiters spot_at_removeMatched)
qed

lemma removedSet_controlled:
  assumes "x \<in> removedSet b p" and "spot_at (grid b) (fst x) (snd x) = Some s"
  shows "controller s = Some p"
proof -
  from assms(1) have hp: "holdsMatchedPair b p" by (simp add: removedSet_def split: if_splits)
  then have len: "length (playerCards b p) = 2" by (simp add: holdsMatchedPair_def)
  from assms(1) hp
  have "x = (fst (playerCards b p ! 0), fst (snd (playerCards b p ! 0)))
      \<or> x = (fst (playerCards b p ! 1), fst (snd (playerCards b p ! 1)))"
    by (auto simp: removedSet_def)
  then obtain i where i: "i < 2" "x = (fst (playerCards b p ! i), fst (snd (playerCards b p ! i)))"
  proof
    assume "x = (fst (playerCards b p ! 0), fst (snd (playerCards b p ! 0)))"
    then show ?thesis using that [of 0] by simp
  next
    assume "x = (fst (playerCards b p ! 1), fst (snd (playerCards b p ! 1)))"
    then show ?thesis using that [of 1] by simp
  qed
  obtain r c v where t: "playerCards b p ! i = (r, c, v)" by (metis prod_cases3)
  with i len have "(r, c, v) \<in> set (playerCards b p)" by (metis nth_mem)
  with t i assms(2) show ?thesis by (auto simp: in_playerCards heldCard_Some)
qed

lemma attempt_cardWaiters:
  "cardWaiters (snd (attempt b1 p row col)) =
     (if fst (attempt b1 p row col) = Suspended
      then cardWaiters (waitForCard b1 (nat row) (nat col) (FlipRetry p row col))
      else cardWaiters b1)"
  by (simp add: attempt_def Let_def split: option.split)

lemma map_of_waitForCard:
  "map_of (cardWaiters (waitForCard b r c k)) x =
     (if x = (r, c)
      then Some ((case map_of (cardWaiters b) (r, c) of None \<Rightarrow> [] | Some ws \<Rightarrow> ws) @ [k])
      else map_of (cardWaiters b) x)"
  by (simp add: waitForCard_def update_conv')

lemma contended_after_cleanup:
  assumes "checkRep b" and "spot_at (grid b) r c = Some s"
      and "controller s = Some q" and "q \<noteq> p"
  shows "spot_at (grid (afterCleanup b p)) r c = Some s"
    and "map_of (cardWaiters (afterCleanup b p)) (r, c) = map_of (cardWaiters b) (r, c)"
proof -
  have nr: "(r, c) \<notin> removedSet b p"
    using removedSet_controlled [of "(r, c)" b p s] assms(2,3,4) by auto
  have td: "turnDown s = s" using assms(3) by (simp add: turnDown_def)
  show "spot_at (grid (afterCleanup b p)) r c = Some s"
    using nr td assms(2) by (simp add: spot_at_afterCleanup [OF assms(1)])
  have "\<not> lost (spot_at (grid b) r c)" using assms(2,3) by (simp add: lost_def)
  with nr show "map_of (cardWaiters (afterCleanup b p)) (r, c) = map_of (cardWaiters b) (r, c)"
    by (simp add: cardWaiters_afterCleanup)
qed

lemma controlledCount_afterCleanup:
  "checkRep b \<Longrightarrow> controlledCount b p \<le> 1
     \<Longrightarrow> controlledCount (afterCleanup b p) p = controlledCount b p"
  by (auto simp: controlledCount_playerCards afterCleanup_checkRep playerCards_afterCleanup
        removedSet_def holdsMatchedPair_def)

lemma flipCard_locked_contended:
  assumes "checkRep b" and "0 \<le> row" and "0 \<le> col"
      and "spot_at (grid b) (nat row) (nat col) = Some s"
      and "controller s = Some q" and "q \<noteq> p" and "controlledCount b p \<le> 1"
  shows "flipCard_locked b p row col =
     (if controlledCount b p = 1
      then (Threw ControlledByAnother, releaseLock (afterCleanup b p))
      else (Suspended,
            releaseLock (waitForCard (afterCleanup b p) (nat row) (nat col) (FlipRetry p row col))))"
proof -
  let ?b1 = "afterCleanup b p"
  have "(nat row, nat col) \<in> set (positions b)"
    using checkRep_in_range [OF assms(1), of "nat row" "nat col"] assms(4) by simp
  then have inr: "\<not> (row < 0 \<or> row \<ge> int (rows ?b1) \<or> col < 0 \<or> col \<ge> int (cols ?b1))"
    using assms(2,3) by (auto simp: in_positions)
  have ok: "spot_ok s"
    using assms(1,4) by (auto simp: checkRep_grid_ok dest: grid_ok_spot_at)
  then have cs: "card_spot s \<noteq> None"
    using assms(5) by (auto simp: spot_ok_def split: option.splits)
  have sp: "spot_at (grid ?b1) (nat row) (nat col) = Some s"
    using assms(1,4,5,6) by (rule contended_after_cleanup)
  have cnt: "controlledCount ?b1 p = controlledCount b p"
    using assms(1,7) by (rule controlledCount_afterCleanup)
  from inr sp cnt cs assms(5,6,7) show ?thesis
    by (simp add: flipCard_locked_attempt attempt_def)
qed

lemma retryFlip_FlipRetry: "retryFlip (FlipRetry p row col) b = Some (flipCard b p row col)"
  by (simp add: retryFlip_def)

lemma idle_lock: "idle b \<Longrightarrow> idle (releaseLock (b\<lparr>lockHeld := True\<rparr>))"
  by (simp add: idle_def releaseLock_def)

lemma releaseLock_locked:
  "lockWaiters b = [] \<Longrightarrow> releaseLock b = b\<lparr>lockHeld := False\<rparr>"
  by (simp add: releaseLock_def)

lemma cardWaiters_lock [simp]: "cardWaiters (afterCleanup (b\<lparr>lockHeld := h\<rparr>) p) = cardWaiters (afterCleanup b p)"
  by (simp add: afterCleanup_lock)

lemma grid_lock [simp]: "grid (afterCleanup (b\<lparr>lockHeld := h\<rparr>) p) = grid (afterCleanup b p)"
  by (simp add: afterCleanup_lock)

lemma flipCard_contended:
  assumes "idle b" and "checkRep b" and "0 \<le> row" and "0 \<le> col"
      and "spot_at (grid b) (nat row) (nat col) = Some s"
      and "controller s = Some q" and "q \<noteq> p" and "controlledCount b p \<le> 1"
  shows "fst (flipCard b p row col) =
           (if controlledCount b p = 1 then Threw ControlledByAnother else Suspended)
       \<and> map_of (cardWaiters (snd (flipCard b p row col))) (nat row, nat col) =
           (if controlledCount b p = 1 then map_of (cardWaiters b) (nat row, nat col)
            else Some ((case map_of (cardWaiters b) (nat row, nat col) of
                          None \<Rightarrow> [] | Some ws \<Rightarrow> ws) @ [FlipRetry p row col]))
       \<and> grid (snd (flipCard b p row col)) = grid (afterCleanup b p)
       \<and> retryFlip (FlipRetry p row col) b' = Some (flipCard b' p row col)"
proof -
  let ?bl = "b\<lparr>lockHeld := True\<rparr>"
  have eq: "flipCard b p row col =
     (if controlledCount b p = 1
      then (Threw ControlledByAnother, releaseLock (afterCleanup ?bl p))
      else (Suspended,
            releaseLock (waitForCard (afterCleanup ?bl p) (nat row) (nat col) (FlipRetry p row col))))"
    using flipCard_locked_contended [of ?bl row col s q p] assms
    by (simp add: flipCard_idle_locked)
  have cw: "map_of (cardWaiters (afterCleanup b p)) (nat row, nat col)
      = map_of (cardWaiters b) (nat row, nat col)"
    using assms(2,5,6,7) by (rule contended_after_cleanup)
  show ?thesis
    by (simp add: eq cw map_of_waitForCard retryFlip_FlipRetry)
qed

lemma flipCard_keeps_waiters:
  assumes "idle b" and "checkRep b"
      and "spot_at (grid b) r c = Some s" and "controller s \<noteq> None"
      and "\<not> (holdsMatchedPair b p \<and> controller s = Some p)"
      and "map_of (cardWaiters b) (r, c) = Some ws"
  shows "\<exists>ws'. map_of (cardWaiters (snd (flipCard b p row col))) (r, c) = Some (ws @ ws')"
proof -
  let ?b1 = "afterCleanup (b\<lparr>lockHeld := True\<rparr>) p"
  have nr: "(r, c) \<notin> removedSet b p"
    using removedSet_controlled [of "(r, c)" b p s] assms(3,5) removedSet_empty [of b p] by auto
  have "\<not> lost (spot_at (grid b) r c)" using assms(3,4) by (simp add: lost_def)
  with nr have 1: "map_of (cardWaiters ?b1) (r, c) = Some ws"
    using assms(6) by (simp add: cardWaiters_afterCleanup)
  have "flipCard b p row col = attempt ?b1 p row col"
    using assms(1) by (simp add: flipCard_idle_locked flipCard_locked_attempt)
  then show ?thesis
    using 1 by (auto simp: attempt_cardWaiters map_of_waitForCard)
qed

lemma other_ops_cardWaiters:
  "cardWaiters (snd (renderFor b p)) = cardWaiters b"
  "cardWaiters (snd (watch b p)) = cardWaiters b"
  "cardWaiters (snd (mapCards_apply b tc p)) = cardWaiters b"
  by (simp_all add: renderFor_def renderFor_locked_def watch_def mapCards_apply_def
        mapCards_apply_locked_def applied_def acquireLock_def Let_def)

subsection \<open>Rendering\<close>

lemma map_filter_all_Some:
  "(\<And>x. x \<in> set xs \<Longrightarrow> f x = Some (g x)) \<Longrightarrow> List.map_filter f xs = map g xs"
  by (induction xs) auto

lemma checkRep_spot_at:
  assumes "checkRep b" and "(r, c) \<in> set (positions b)"
  shows "spot_at (grid b) r c = Some (grid b ! r ! c)"
  using assms checkRep_in_range [OF assms(1), of r c]
  by (auto simp: spot_at_def split: if_splits)

lemma render_lines_map:
  assumes "checkRep b"
  shows "render_lines b p =
     (show_nat (rows b) @ ''x'' @ show_nat (cols b))
     # map (\<lambda>rc. viewOf (grid b ! fst rc ! snd rc) p) (positions b)"
proof -
  have "List.map_filter
         (\<lambda>rc. case spot_at (grid b) (fst rc) (snd rc) of
                  None \<Rightarrow> None
                | Some spot \<Rightarrow> Some (viewOf spot p))
         (positions b) = map (\<lambda>rc. viewOf (grid b ! fst rc ! snd rc) p) (positions b)"
  proof (rule map_filter_all_Some)
    fix x assume "x \<in> set (positions b)"
    then have "spot_at (grid b) (fst x) (snd x) = Some (grid b ! fst x ! snd x)"
      using checkRep_spot_at [OF assms, of "fst x" "snd x"] by simp
    then show "(case spot_at (grid b) (fst x) (snd x) of
                  None \<Rightarrow> None
                | Some spot \<Rightarrow> Some (viewOf spot p)) = Some (viewOf (grid b ! fst x ! snd x) p)"
      by simp
  qed
  then show ?thesis by (simp add: render_lines_def)
qed

lemma length_positions: "length (positions b) = rows b * cols b"
  by (simp add: positions_def)

lemma position_index:
  assumes "r < rows b" and "c < cols b"
  shows "r * cols b + c < rows b * cols b"
proof -
  have "r * cols b + c < r * cols b + cols b" using assms(2) by simp
  also have "\<dots> = Suc r * cols b" by simp
  also have "\<dots> \<le> rows b * cols b" using assms(1) by (intro mult_le_mono1) simp
  finally show ?thesis .
qed

lemma positions_nth:
  assumes "r < rows b" and "c < cols b"
  shows "positions b ! (r * cols b + c) = (r, c)"
  using position_index [OF assms] assms by (simp add: positions_def product_nth)

lemma render_lines_nth:
  assumes "checkRep b" and "r < rows b" and "c < cols b"
  shows "render_lines b p ! (1 + r * cols b + c) = viewOf (grid b ! r ! c) p"
  using positions_nth [OF assms(2,3)] position_index [OF assms(2,3)]
  by (simp add: render_lines_map [OF assms(1)] length_positions)

lemma split_lines_line:
  "CHR 0x0A \<notin> set l \<Longrightarrow> split_lines (l @ CHR 0x0A # rest) = l # split_lines rest"
  by (induction l) auto

lemma split_join_lines:
  "ls \<noteq> [] \<Longrightarrow> \<forall>l \<in> set ls. CHR 0x0A \<notin> set l
     \<Longrightarrow> split_lines (join_lines ls @ [CHR 0x0A]) = ls @ [[]]"
proof (induction ls rule: join_lines.induct)
  case 1
  then show ?case by simp
next
  case (2 l)
  then show ?case using split_lines_line [of l "[]"] by simp
next
  case (3 l l' ls)
  then have "split_lines (join_lines (l' # ls) @ [CHR 0x0A]) = (l' # ls) @ [[]]" by simp
  moreover have "CHR 0x0A \<notin> set l" using 3 by simp
  ultimately show ?case
    using split_lines_line [of l "join_lines (l' # ls) @ [CHR 0x0A]"] by simp
qed

lemma show_nat_digits: "set (show_nat n) \<subseteq> set ''0123456789''"
proof (induction n rule: show_nat.induct)
  case (1 n)
  have d: "''0123456789'' ! k \<in> set ''0123456789''" if "k < 10" for k
    using that by (intro nth_mem) simp
  show ?case
  proof (cases "n < 10")
    case True
    then show ?thesis using d [of n] by (subst show_nat.simps) simp
  next
    case False
    have "n mod 10 < 10" by simp
    from d [OF this] 1 False show ?thesis by (subst show_nat.simps) simp
  qed
qed

lemma show_nat_no_nl: "CHR 0x0A \<notin> set (show_nat n)"
  using show_nat_digits [of n] by auto

lemma viewOf_no_nl: "spot_ok s \<Longrightarrow> CHR 0x0A \<notin> set (viewOf s p)"
  by (auto simp: viewOf_def spot_ok_def CARD_REGEX_def is_space_def list_all_iff split: option.splits)

lemma render_lines_no_nl:
  assumes "checkRep b"
  shows "\<forall>l \<in> set (render_lines b p). CHR 0x0A \<notin> set l"
proof -
  have "spot_ok (grid b ! fst rc ! snd rc)" if "rc \<in> set (positions b)" for rc
    using checkRep_spot_at [OF assms, of "fst rc" "snd rc"] that assms
    by (auto simp: checkRep_grid_ok dest: grid_ok_spot_at)
  then show ?thesis
    by (auto simp: render_lines_map [OF assms] show_nat_no_nl viewOf_no_nl)
qed

lemma renderFor_idle:
  "idle b \<Longrightarrow> renderFor b p = (Returned (Text (join_lines (render_lines b p) @ [CHR 0x0A])), b)"
  by (simp add: idle_def renderFor_def renderFor_locked_def acquireLock_def release_acquired
        render_lines_def positions_def)

subsection \<open>The three phases of mapCards\<close>












lemma applied_proj [simp]:
  "rows (applied b tc) = rows b" "cols (applied b tc) = cols b"
  "lockHeld (applied b tc) = lockHeld b" "lockWaiters (applied b tc) = lockWaiters b"
  "watchers (applied b tc) = watchers b"
  by (simp_all add: applied_def)




subsection \<open>The second card of a turn\<close>

lemma firstCard_Some:
  assumes "firstCard b p r c = Some (r1, c1, v1)"
  shows "(r1, c1) \<noteq> (r, c)" and "(r1, c1) \<in> set (positions b)"
    and "heldCard (grid b) p (r1, c1) = Some (r1, c1, v1)"
proof -
  let ?xs = "List.map_filter (heldCard (grid b) p) (filter (\<lambda>rc. rc \<noteq> (r, c)) (positions b))"
  from assms have "(r1, c1, v1) \<in> set ?xs"
    by (auto simp: firstCard_def split: list.splits)
  then obtain rc where rc: "rc \<in> set (positions b)" "rc \<noteq> (r, c)"
      "heldCard (grid b) p rc = Some (r1, c1, v1)"
    by (auto simp: set_map_filter_eq)
  then have "rc = (r1, c1)" by (auto simp: heldCard_Some)
  with rc show "(r1, c1) \<noteq> (r, c)" "(r1, c1) \<in> set (positions b)"
    "heldCard (grid b) p (r1, c1) = Some (r1, c1, v1)" by simp_all
qed

lemma map_filter_filter:
  "(\<And>x y. x \<in> set xs \<Longrightarrow> f x = Some y \<Longrightarrow> P x = Q y)
     \<Longrightarrow> List.map_filter f (filter P xs) = filter Q (List.map_filter f xs)"
  by (induction xs) (auto split: option.splits)

lemma firstCard_after_flip:
  "firstCard (b\<lparr>grid := set_spot (grid b) r c x\<rparr>) p r c =
     (case filter (\<lambda>t. (fst t, fst (snd t)) \<noteq> (r, c)) (playerCards b p) of
        [] \<Rightarrow> None | t # _ \<Rightarrow> Some t)"
proof -
  let ?ps = "filter (\<lambda>rc. rc \<noteq> (r, c)) (positions b)"
  have "List.map_filter (heldCard (set_spot (grid b) r c x) p) ?ps
      = List.map_filter (heldCard (grid b) p) ?ps"
    by (rule map_filter_cong') (auto simp: heldCard_def spot_at_set_spot)
  also have "\<dots> = filter (\<lambda>t. (fst t, fst (snd t)) \<noteq> (r, c)) (playerCards b p)"
    unfolding playerCards_def
    by (rule map_filter_filter) (auto simp: heldCard_Some)
  finally show ?thesis
    by (simp add: firstCard_def positions_def)
qed

lemma relinquish_spot:
  assumes "firstCard b2 p r c = Some (r1, c1, v1)" and "Some v1 \<noteq> card_spot fl"
      and "spot_at (grid b2) r c \<noteq> None"
  shows "spot_at (grid (relinquish b2 p r c fl)) r' c' =
     (if (r', c') = (r1, c1) then map_option (\<lambda>s. s\<lparr>controller := None\<rparr>) (spot_at (grid b2) r1 c1)
      else if (r', c') = (r, c) then Some (fl\<lparr>controller := None\<rparr>)
      else spot_at (grid b2) r' c')"
proof -
  have ne: "(r1, c1) \<noteq> (r, c)" using assms(1) by (rule firstCard_Some)
  have "heldCard (grid b2) p (r1, c1) = Some (r1, c1, v1)" using assms(1) by (rule firstCard_Some)
  then obtain s1 where s1: "spot_at (grid b2) r1 c1 = Some s1" by (auto simp: heldCard_Some)
  have g1: "spot_at (set_spot (grid b2) r c (fl\<lparr>controller := None\<rparr>)) r1 c1 = Some s1"
    using ne s1 by (auto simp: spot_at_set_spot)
  show ?thesis
    using assms ne s1 g1
    by (auto simp: relinquish_def Let_def spot_at_set_spot)
qed

lemma relinquish_same:
  "firstCard b2 p r c = None \<or> (\<exists>r1 c1. firstCard b2 p r c = Some (r1, c1, v) \<and> card_spot fl = Some v)
     \<Longrightarrow> relinquish b2 p r c fl = b2"
  by (auto simp: relinquish_def)

lemma flip_checkRep:
  assumes "checkRep b1" and "spot_at (grid b1) r c = Some s" and "card_spot s \<noteq> None"
  shows "checkRep (b1\<lparr>grid := set_spot (grid b1) r c (s\<lparr>faceUp := True, controller := Some p\<rparr>)\<rparr>)"
    and "checkRep (relinquish (b1\<lparr>grid := set_spot (grid b1) r c (s\<lparr>faceUp := True, controller := Some p\<rparr>)\<rparr>)
                    p r c (s\<lparr>faceUp := True, controller := Some p\<rparr>))"
proof -
  have ok1: "grid_ok (rows b1) (cols b1) (grid b1)" using assms(1) by (simp add: checkRep_grid_ok)
  have s: "spot_ok s" using ok1 assms(2) by (rule grid_ok_spot_at)
  show g2: "checkRep (b1\<lparr>grid := set_spot (grid b1) r c (s\<lparr>faceUp := True, controller := Some p\<rparr>)\<rparr>)"
    using ok1 s assms(3) by (simp add: checkRep_grid_ok grid_ok_set_spot flipped_ok)
  have "spot_ok (s\<lparr>faceUp := True, controller := Some p, controller := None\<rparr>)"
    using flipped_ok [OF s assms(3), of None] by simp
  with g2 show "checkRep (relinquish (b1\<lparr>grid := set_spot (grid b1) r c (s\<lparr>faceUp := True, controller := Some p\<rparr>)\<rparr>)
                    p r c (s\<lparr>faceUp := True, controller := Some p\<rparr>))"
    by (simp add: checkRep_grid_ok relinquish_grid_ok)
qed

lemma attempt_free_target:
  assumes "checkRep b1" and "0 \<le> row" and "0 \<le> col"
      and "spot_at (grid b1) (nat row) (nat col) = Some s"
      and "card_spot s \<noteq> None" and "controller s = None" and "controlledCount b1 p < 2"
  shows "attempt b1 p row col =
     (Returned Void,
      releaseLock (notifyWatchers
        (if controlledCount b1 p = 1
         then relinquish (b1\<lparr>grid := set_spot (grid b1) (nat row) (nat col)
                                        (s\<lparr>faceUp := True, controller := Some p\<rparr>)\<rparr>)
                p (nat row) (nat col) (s\<lparr>faceUp := True, controller := Some p\<rparr>)
         else b1\<lparr>grid := set_spot (grid b1) (nat row) (nat col)
                            (s\<lparr>faceUp := True, controller := Some p\<rparr>)\<rparr>)))"
proof -
  have "(nat row, nat col) \<in> set (positions b1)"
    using checkRep_in_range [OF assms(1), of "nat row" "nat col"] assms(4) by simp
  then have inr: "\<not> (row < 0 \<or> row \<ge> int (rows b1) \<or> col < 0 \<or> col \<ge> int (cols b1))"
    using assms(2,3) by (auto simp: in_positions)
  from inr assms(4-7) flip_checkRep [OF assms(1,4,5), of p] show ?thesis
    by (simp add: attempt_def Let_def)
qed

lemma turnDown_flipped:
  "(turnDown s)\<lparr>faceUp := True, controller := q\<rparr> = s\<lparr>faceUp := True, controller := q\<rparr>"
  by (simp add: turnDown_def)

lemma turnDown_fields [simp]:
  "card_spot (turnDown s) = card_spot s" "controller (turnDown s) = controller s"
  by (simp_all add: turnDown_def)

lemma flipCard_locked_second_card:
  assumes "checkRep b" and "0 \<le> row" and "0 \<le> col"
      and "playerCards b p = [(r1, c1, v1)]"
      and "spot_at (grid b) (nat row) (nat col) = Some s"
      and "card_spot s = Some v" and "controller s = None"
  shows "fst (flipCard_locked b p row col) = Returned Void"
    and "spot_at (grid (snd (flipCard_locked b p row col))) (nat row) (nat col) =
           Some (s\<lparr>faceUp := True, controller := (if v = v1 then Some p else None)\<rparr>)"
    and "\<exists>s1. spot_at (grid b) r1 c1 = Some s1 \<and> faceUp s1 \<and> controller s1 = Some p
            \<and> card_spot s1 = Some v1
            \<and> spot_at (grid (snd (flipCard_locked b p row col))) r1 c1 =
                Some (s1\<lparr>controller := (if v = v1 then Some p else None)\<rparr>)"
    and "\<And>r' c'. (r', c') \<noteq> (nat row, nat col) \<Longrightarrow> (r', c') \<noteq> (r1, c1) \<Longrightarrow>
           spot_at (grid (snd (flipCard_locked b p row col))) r' c' =
             map_option turnDown (spot_at (grid b) r' c')"
proof -
  let ?r = "nat row" and ?c = "nat col"
  let ?b1 = "afterCleanup b p"
  let ?fl = "s\<lparr>faceUp := True, controller := Some p\<rparr>"
  let ?b2 = "?b1\<lparr>grid := set_spot (grid ?b1) ?r ?c ?fl\<rparr>"
  have rep1: "checkRep ?b1" using assms(1) by (rule afterCleanup_checkRep)
  have nh: "\<not> holdsMatchedPair b p" using assms(4) by (simp add: holdsMatchedPair_def)
  then have e: "removedSet b p = {}" by (simp add: removedSet_empty)
  have sp: "\<And>r' c'. spot_at (grid ?b1) r' c' = map_option turnDown (spot_at (grid b) r' c')"
    using e by (simp add: spot_at_afterCleanup [OF assms(1)])
  have pc1: "playerCards ?b1 p = [(r1, c1, v1)]"
    using e assms(4) by (simp add: playerCards_afterCleanup [OF assms(1)])
  have cnt: "controlledCount ?b1 p = 1"
    using pc1 by (simp add: controlledCount_playerCards rep1)
  have tgt: "spot_at (grid ?b1) ?r ?c = Some (turnDown s)"
    using sp assms(5) by simp
  have "(r1, c1, v1) \<in> set (playerCards b p)" using assms(4) by simp
  then obtain s1 where s1: "spot_at (grid b) r1 c1 = Some s1" "card_spot s1 = Some v1"
      "controller s1 = Some p" "faceUp s1"
    by (auto simp: in_playerCards heldCard_Some)
  have ne: "(r1, c1) \<noteq> (?r, ?c)" using s1 assms(5,7) by auto
  have s1': "spot_at (grid ?b1) r1 c1 = Some s1"
    using sp s1 by (simp add: turnDown_def)
  have fc: "firstCard ?b2 p ?r ?c = Some (r1, c1, v1)"
    using ne by (auto simp: firstCard_after_flip pc1)
  have att: "attempt ?b1 p row col =
     (Returned Void, releaseLock (notifyWatchers (relinquish ?b2 p ?r ?c ?fl)))"
    using attempt_free_target [OF rep1 assms(2,3) tgt, of p] assms(6,7) cnt
    by (simp add: turnDown_flipped)
  show "fst (flipCard_locked b p row col) = Returned Void"
    by (simp add: flipCard_locked_attempt att)
  have g2: "\<And>r' c'. spot_at (set_spot (grid ?b1) ?r ?c ?fl) r' c' =
      (if (r', c') = (?r, ?c) then Some ?fl else map_option turnDown (spot_at (grid b) r' c'))"
    using tgt sp by (auto simp: spot_at_set_spot)
  have fin: "\<And>r' c'. spot_at (grid (snd (flipCard_locked b p row col))) r' c' =
      (if v = v1 then spot_at (grid ?b2) r' c'
       else if (r', c') = (r1, c1) then Some (s1\<lparr>controller := None\<rparr>)
       else if (r', c') = (?r, ?c) then Some (?fl\<lparr>controller := None\<rparr>)
       else spot_at (grid ?b2) r' c')"
  proof -
    fix r' c'
    show "spot_at (grid (snd (flipCard_locked b p row col))) r' c' =
      (if v = v1 then spot_at (grid ?b2) r' c'
       else if (r', c') = (r1, c1) then Some (s1\<lparr>controller := None\<rparr>)
       else if (r', c') = (?r, ?c) then Some (?fl\<lparr>controller := None\<rparr>)
       else spot_at (grid ?b2) r' c')"
    proof (cases "v = v1")
      case True
      then have "relinquish ?b2 p ?r ?c ?fl = ?b2"
        using fc assms(6) by (intro relinquish_same) auto
      with True show ?thesis by (simp add: flipCard_locked_attempt att)
    next
      case False
      have "spot_at (grid ?b2) ?r ?c = Some ?fl" using g2 [of ?r ?c] by simp
      then have ex: "spot_at (grid ?b2) ?r ?c \<noteq> None" by simp
      have nv: "Some v1 \<noteq> card_spot ?fl" using False assms(6) by simp
      have "spot_at (grid ?b2) r1 c1 = Some s1" using ne s1' by (auto simp: spot_at_set_spot)
      with False relinquish_spot [OF fc nv ex, of r' c'] show ?thesis
        by (simp add: flipCard_locked_attempt att)
    qed
  qed
  show "spot_at (grid (snd (flipCard_locked b p row col))) ?r ?c =
           Some (s\<lparr>faceUp := True, controller := (if v = v1 then Some p else None)\<rparr>)"
    using ne by (auto simp: fin g2)
  have "spot_at (grid (snd (flipCard_locked b p row col))) r1 c1 =
                Some (s1\<lparr>controller := (if v = v1 then Some p else None)\<rparr>)"
    using ne s1 by (auto simp: fin g2 turnDown_def)
  with s1 show "\<exists>s1. spot_at (grid b) r1 c1 = Some s1 \<and> faceUp s1 \<and> controller s1 = Some p
            \<and> card_spot s1 = Some v1
            \<and> spot_at (grid (snd (flipCard_locked b p row col))) r1 c1 =
                Some (s1\<lparr>controller := (if v = v1 then Some p else None)\<rparr>)"
    by blast
  show "spot_at (grid (snd (flipCard_locked b p row col))) r' c' =
             map_option turnDown (spot_at (grid b) r' c')"
    if "(r', c') \<noteq> (nat row, nat col)" "(r', c') \<noteq> (r1, c1)" for r' c'
    using that by (auto simp: fin g2)
qed

lemma cleanup_uncontrolled:
  assumes "checkRep b" and "spot_at (grid b) r c = Some s"
  shows "controller s = None \<Longrightarrow>
           \<exists>t. spot_at (grid (afterCleanup b p)) r c = Some t \<and> \<not> faceUp t \<and> controller t = None"
    and "controller s = Some q \<Longrightarrow> q \<noteq> p \<Longrightarrow> spot_at (grid (afterCleanup b p)) r c = Some s"
proof -
  have ok: "spot_ok s" using assms by (auto simp: checkRep_grid_ok dest: grid_ok_spot_at)
  show "\<exists>t. spot_at (grid (afterCleanup b p)) r c = Some t \<and> \<not> faceUp t \<and> controller t = None"
    if "controller s = None"
    using that ok assms(2)
    by (auto simp: spot_at_afterCleanup [OF assms(1)] removed_def turnDown_def spot_ok_def
          split: option.splits)
  show "spot_at (grid (afterCleanup b p)) r c = Some s" if "controller s = Some q" "q \<noteq> p"
    using assms that by (rule contended_after_cleanup)
qed

subsection \<open>A matched pair until the player's next flip\<close>





lemma pairHeld_cong:
  "playerCards b' p = playerCards b p \<Longrightarrow> pairHeld b' p x y = pairHeld b p x y"
  by (simp add: pairHeld_def)














lemma flipCard_locked_dims [simp]:
  "rows (snd (flipCard_locked b q row col)) = rows b"
  "cols (snd (flipCard_locked b q row col)) = cols b"
  by (simp_all add: flipCard_locked_attempt attempt_def Let_def split: option.split)








section \<open>The claims\<close>

text \<open>
  C1. Every board built by \<open>parseFromFile\<close> and then changed by any sequence of
  \<open>flipCard\<close>, \<open>renderFor\<close>, \<open>watch\<close> and \<open>mapCards\<close> steps (the snapshot and
  the apply phase of \<open>mapCards\<close> being steps of their own, with any table the
  computation phase can produce) satisfies at every spot: no card implies face down
  and no controller, and a controller implies face up.
\<close>

theorem C1_spot_invariant:
  assumes "reachable b" and "spot_at (grid b) r c = Some s"
  shows "(card_spot s = None \<longrightarrow> faceUp s = False \<and> controller s = None)
       \<and> (controller s \<noteq> None \<longrightarrow> faceUp s = True)"
proof -
  have "spot_ok s"
    using reachable_checkRep [OF assms(1)] assms(2)
    by (auto simp: checkRep_grid_ok dest: grid_ok_spot_at)
  then show ?thesis by (auto simp: spot_ok_def split: option.splits)
qed

theorem C1_spot_invariant_witness:
  "reachable (snd (flipCard board22 ''p1'' 0 0))
   \<and> spot_at (grid (snd (flipCard board22 ''p1'' 0 0))) 0 0
       = Some \<lparr>card_spot = Some ''A'', faceUp = True, controller = Some ''p1''\<rparr>
   \<and> faceUp \<lparr>card_spot = Some ''A'', faceUp = True, controller = Some ''p1''\<rparr> = True"
proof -
  have r: "reachable (snd (flipCard board22 ''p1'' 0 0))"
    by (rule reachable.flipped, rule reachable.parsed, rule parse22)
  have s: "spot_at (grid (snd (flipCard board22 ''p1'' 0 0))) 0 0
       = Some \<lparr>card_spot = Some ''A'', faceUp = True, controller = Some ''p1''\<rparr>"
    by code_simp
  from C1_spot_invariant [OF r s] r s show ?thesis by simp
qed



text \<open>
  C3 (as stated, refuted). On the 2x2 board p1 flips (0, 0) and then (1, 0), an
  unequal pair, and loses control of both. Before p1 flips again, p2 flips (0, 0) and
  takes control of it. The cleanup pass of p1's next \<open>flipCard\<close> leaves (0, 0) face
  up, and so does the whole call.
\<close>

theorem C3_counterexample:
  "fst (flipCard b_first ''p1'' 1 0) = Returned Void
   \<and> spot_at (grid b_mis) 0 0 = Some \<lparr>card_spot = Some ''A'', faceUp = True, controller = None\<rparr>
   \<and> spot_at (grid b_mis) 1 0 = Some \<lparr>card_spot = Some ''B'', faceUp = True, controller = None\<rparr>
   \<and> fst (flipCard b_mis ''p2'' 0 0) = Returned Void
   \<and> spot_at (grid (afterCleanup b_taken ''p1'')) 0 0
       = Some \<lparr>card_spot = Some ''A'', faceUp = True, controller = Some ''p2''\<rparr>
   \<and> fst (flipCard b_taken ''p1'' 1 1) = Returned Void
   \<and> spot_at (grid (snd (flipCard b_taken ''p1'' 1 1))) 0 0
       = Some \<lparr>card_spot = Some ''A'', faceUp = True, controller = Some ''p2''\<rparr>"
  by code_simp

text \<open>
  C3 (amended). When a player who holds exactly one card flips an uncontrolled card
  of a different value, \<open>flipCard\<close> returns with both cells face up and without
  controller. The cleanup pass of that player's next \<open>flipCard\<close> turns face down
  every cell that has no controller at that time, so both cells when nothing has
  happened to them in between, and leaves as it is a cell that another player
  controls by then.
\<close>

theorem C3_unequal_pair:
  assumes "idle b" and "checkRep b" and "0 \<le> row" and "0 \<le> col"
      and "playerCards b p = [(r1, c1, v1)]"
      and "spot_at (grid b) (nat row) (nat col) = Some s"
      and "card_spot s = Some v" and "v \<noteq> v1" and "controller s = None"
  shows "fst (flipCard b p row col) = Returned Void
       \<and> spot_at (grid (snd (flipCard b p row col))) (nat row) (nat col)
           = Some (s\<lparr>faceUp := True, controller := None\<rparr>)
       \<and> (\<exists>s1. spot_at (grid b) r1 c1 = Some s1 \<and> faceUp s1 \<and> controller s1 = Some p
              \<and> spot_at (grid (snd (flipCard b p row col))) r1 c1
                  = Some (s1\<lparr>controller := None\<rparr>))
       \<and> (\<exists>t t1. spot_at (grid (afterCleanup (snd (flipCard b p row col)) p)) (nat row) (nat col)
                     = Some t \<and> \<not> faceUp t
                 \<and> spot_at (grid (afterCleanup (snd (flipCard b p row col)) p)) r1 c1
                     = Some t1 \<and> \<not> faceUp t1)
       \<and> (\<forall>b2 r c s2 q.
             checkRep b2 \<and> spot_at (grid b2) r c = Some s2 \<longrightarrow>
               (controller s2 = None \<longrightarrow>
                  (\<exists>t. spot_at (grid (afterCleanup b2 p)) r c = Some t \<and> \<not> faceUp t))
               \<and> (controller s2 = Some q \<and> q \<noteq> p \<longrightarrow>
                    spot_at (grid (afterCleanup b2 p)) r c = Some s2))
       \<and> (\<forall>b2 row2 col2. idle b2 \<longrightarrow>
             flipCard b2 p row2 col2 = attempt ((afterCleanup b2 p)\<lparr>lockHeld := True\<rparr>) p row2 col2)"
proof -
  let ?bl = "b\<lparr>lockHeld := True\<rparr>"
  let ?b' = "snd (flipCard b p row col)"
  have eq: "flipCard b p row col = flipCard_locked ?bl p row col"
    using assms(1) by (rule flipCard_idle_locked)
  have rep: "checkRep ?bl" using assms(2) by simp
  have pc: "playerCards ?bl p = [(r1, c1, v1)]" using assms(5) by simp
  have tg: "spot_at (grid ?bl) (nat row) (nat col) = Some s" using assms(6) by simp
  note L = flipCard_locked_second_card [OF rep assms(3,4) pc tg assms(7,9)]
  have 1: "fst (flipCard b p row col) = Returned Void" using L(1) by (simp add: eq)
  have 2: "spot_at (grid ?b') (nat row) (nat col) = Some (s\<lparr>faceUp := True, controller := None\<rparr>)"
    using L(2) assms(8) by (simp add: eq)
  from L(3) obtain s1 where s1: "spot_at (grid b) r1 c1 = Some s1" "faceUp s1"
      "controller s1 = Some p" "spot_at (grid ?b') r1 c1 = Some (s1\<lparr>controller := None\<rparr>)"
    using assms(8) by (auto simp: eq)
  have rep': "checkRep ?b'" using assms(2) by (rule flipCard_checkRep)
  obtain t where t: "spot_at (grid (afterCleanup ?b' p)) (nat row) (nat col) = Some t" "\<not> faceUp t"
    using cleanup_uncontrolled(1) [OF rep' 2, of p] by auto
  obtain t1 where t1: "spot_at (grid (afterCleanup ?b' p)) r1 c1 = Some t1" "\<not> faceUp t1"
    using cleanup_uncontrolled(1) [OF rep' s1(4), of p] by auto
  have 5: "\<forall>b2 r c s2 q.
             checkRep b2 \<and> spot_at (grid b2) r c = Some s2 \<longrightarrow>
               (controller s2 = None \<longrightarrow>
                  (\<exists>t. spot_at (grid (afterCleanup b2 p)) r c = Some t \<and> \<not> faceUp t))
               \<and> (controller s2 = Some q \<and> q \<noteq> p \<longrightarrow>
                    spot_at (grid (afterCleanup b2 p)) r c = Some s2)"
    using cleanup_uncontrolled by blast
  have 6: "\<forall>b2 row2 col2. idle b2 \<longrightarrow>
             flipCard b2 p row2 col2 = attempt ((afterCleanup b2 p)\<lparr>lockHeld := True\<rparr>) p row2 col2"
    by (simp add: flipCard_idle)
  from 1 2 s1 t t1 5 6 show ?thesis by blast
qed

theorem C3_unequal_pair_witness:
  "idle b_first \<and> checkRep b_first \<and> playerCards b_first ''p1'' = [(0, 0, ''A'')]
   \<and> spot_at (grid b_first) (nat 1) (nat 0)
       = Some \<lparr>card_spot = Some ''B'', faceUp = False, controller = None\<rparr>
   \<and> fst (flipCard b_first ''p1'' 1 0) = Returned Void
   \<and> spot_at (grid (snd (flipCard b_first ''p1'' 1 0))) (nat 1) (nat 0)
       = Some \<lparr>card_spot = Some ''B'', faceUp = True, controller = None\<rparr>"
proof -
  have i: "idle b_first" by code_simp
  have c: "checkRep b_first" by code_simp
  have z: "(0::int) \<le> 1" "(0::int) \<le> 0" by simp_all
  have pc: "playerCards b_first ''p1'' = [(0, 0, ''A'')]" by code_simp
  have s: "spot_at (grid b_first) (nat 1) (nat 0)
       = Some \<lparr>card_spot = Some ''B'', faceUp = False, controller = None\<rparr>" by code_simp
  have k: "card_spot \<lparr>card_spot = Some ''B'', faceUp = False, controller = None\<rparr> = Some ''B''"
    by simp
  have d: "''B'' \<noteq> ''A''" by simp
  have n: "controller \<lparr>card_spot = Some ''B'', faceUp = False, controller = None\<rparr> = None"
    by simp
  note T = C3_unequal_pair [OF i c z pc s k d n]
  from T have a: "fst (flipCard b_first ''p1'' 1 0) = Returned Void"
    by (rule conjunct1)
  from T have "spot_at (grid (snd (flipCard b_first ''p1'' 1 0))) (nat 1) (nat 0)
       = Some (\<lparr>card_spot = Some ''B'', faceUp = False, controller = None\<rparr>
                 \<lparr>faceUp := True, controller := None\<rparr>)"
    by (rule conjunct1 [OF conjunct2])
  then have b: "spot_at (grid (snd (flipCard b_first ''p1'' 1 0))) (nat 1) (nat 0)
       = Some \<lparr>card_spot = Some ''B'', faceUp = True, controller = None\<rparr>"
    by simp
  from i c pc s a b show ?thesis by (intro conjI)
qed

text \<open>
  What the code does on a contended target. A \<open>flipCard\<close> whose target is
  controlled by another player: when the caller controls exactly one card the call
  fails at once with "controlled by another player" and registers no waiter; when the
  caller controls no card the call suspends, having appended its resolver to the queue
  of exactly that position, and the board is otherwise the one left by the cleanup
  pass. The resolver, once invoked, runs \<open>flipCard\<close> with the same arguments from
  the top, cleanup pass included. While the cell stays controlled the waiters of its
  queue stay queued: no later \<open>flipCard\<close> (unless its cleanup removes the cell as
  part of the caller's own matched pair), \<open>renderFor\<close>, \<open>watch\<close> or
  \<open>mapCards\<close> step resumes them.
\<close>

theorem flipCard_contended_target:
  assumes "idle b" and "checkRep b" and "0 \<le> row" and "0 \<le> col"
      and "spot_at (grid b) (nat row) (nat col) = Some s"
      and "controller s = Some q" and "q \<noteq> p" and "controlledCount b p \<le> 1"
  shows "fst (flipCard b p row col) =
           (if controlledCount b p = 1 then Threw ControlledByAnother else Suspended)
       \<and> map_of (cardWaiters (snd (flipCard b p row col))) (nat row, nat col) =
           (if controlledCount b p = 1 then map_of (cardWaiters b) (nat row, nat col)
            else Some ((case map_of (cardWaiters b) (nat row, nat col) of
                          None \<Rightarrow> [] | Some ws \<Rightarrow> ws) @ [FlipRetry p row col]))
       \<and> grid (snd (flipCard b p row col)) = grid (afterCleanup b p)
       \<and> (\<forall>b'. retryFlip (FlipRetry p row col) b' = Some (flipCard b' p row col))
       \<and> (\<forall>b2 p2 row2 col2 s2 ws.
             idle b2 \<and> checkRep b2 \<and> spot_at (grid b2) (nat row) (nat col) = Some s2
             \<and> controller s2 \<noteq> None \<and> \<not> (holdsMatchedPair b2 p2 \<and> controller s2 = Some p2)
             \<and> map_of (cardWaiters b2) (nat row, nat col) = Some ws
             \<longrightarrow> (\<exists>ws'. map_of (cardWaiters (snd (flipCard b2 p2 row2 col2))) (nat row, nat col)
                          = Some (ws @ ws'))
                 \<and> cardWaiters (snd (renderFor b2 p2)) = cardWaiters b2
                 \<and> cardWaiters (snd (watch b2 p2)) = cardWaiters b2
                 \<and> (\<forall>tc. cardWaiters (snd (mapCards_apply b2 tc p2)) = cardWaiters b2))"
  using flipCard_contended [OF assms] flipCard_keeps_waiters
  by (simp add: other_ops_cardWaiters)

theorem flipCard_contended_target_example:
  "idle b_first \<and> checkRep b_first
   \<and> spot_at (grid b_first) (nat 0) (nat 0)
       = Some \<lparr>card_spot = Some ''A'', faceUp = True, controller = Some ''p1''\<rparr>
   \<and> controlledCount b_first ''p2'' \<le> 1
   \<and> fst (flipCard b_first ''p2'' 0 0) = Suspended
   \<and> map_of (cardWaiters (snd (flipCard b_first ''p2'' 0 0))) (nat 0, nat 0)
       = Some [FlipRetry ''p2'' 0 0]"
proof -
  have i: "idle b_first" by code_simp
  have c: "checkRep b_first" by code_simp
  have z: "(0::int) \<le> 0" by simp
  have s: "spot_at (grid b_first) (nat 0) (nat 0)
       = Some \<lparr>card_spot = Some ''A'', faceUp = True, controller = Some ''p1''\<rparr>" by code_simp
  have k: "controller \<lparr>card_spot = Some ''A'', faceUp = True, controller = Some ''p1''\<rparr> = Some ''p1''"
    by simp
  have d: "''p1'' \<noteq> ''p2''" by simp
  have n: "controlledCount b_first ''p2'' \<le> 1" by code_simp
  have n0: "controlledCount b_first ''p2'' \<noteq> 1" by code_simp
  have m: "map_of (cardWaiters b_first) (nat 0, nat 0) = None" by code_simp
  from flipCard_contended_target [OF i c z z s k d n] n0 m i c s n show ?thesis by simp
qed

text \<open>
  C4 (the code at the failing input). On the 2x2 board p1 controls (0, 0) and p2, who
  controls nothing, flips (0, 0): the call suspends. Then p1 flips (1, 0), which does
  not match, and returns: the control of (0, 0) has been released, but the call of p2
  has not been resumed, although re-running it on this board would succeed. It is
  resumed only by the cleanup pass of a later \<open>flipCard\<close>.
\<close>

theorem C4_waiter_not_resumed_at_release:
  "controlledCount b_first ''p2'' = 0
   \<and> spot_at (grid b_first) 0 0
       = Some \<lparr>card_spot = Some ''A'', faceUp = True, controller = Some ''p1''\<rparr>
   \<and> fst (flipCard b_first ''p2'' 0 0) = Suspended
   \<and> fst (flipCard b_wait ''p1'' 1 0) = Returned Void
   \<and> map_option controller (spot_at (grid b_lost) 0 0) = Some None
   \<and> resumed b_lost = []
   \<and> map_option fst (retryFlip (FlipRetry ''p2'' 0 0) b_lost) = Some (Returned Void)
   \<and> resumed (snd (flipCard b_lost ''p3'' 1 1)) = [FlipRetry ''p2'' 0 0]"
  by code_simp

text \<open>
  C5 (as stated, refuted). A failed \<open>flipCard\<close> does not always leave the board as it
  was: the cleanup pass runs before the validation and its effect stays. Player p1
  holds the matched pair of the 2x2 board and flips the position (5, 5): the call
  fails with invalid coordinates and the pair has been removed.
\<close>

theorem C5_counterexample:
  "reachable b_pair
   \<and> fst (flipCard b_pair ''p1'' 5 5) = Threw InvalidCoordinates
   \<and> snd (flipCard b_pair ''p1'' 5 5) \<noteq> b_pair"
proof -
  have "fst (flipCard b_pair ''p1'' 5 5) = Threw InvalidCoordinates
   \<and> snd (flipCard b_pair ''p1'' 5 5) \<noteq> b_pair"
    by code_simp
  with reachable_b_pair show ?thesis by simp
qed

text \<open>
  C5 (amended). When \<open>flipCard\<close> fails with a validation error (invalid coordinates,
  no card, own card, two cards held, second card controlled), the board after the call
  is the board left by the cleanup pass of that call and nothing else: the flip itself
  has written nothing. When the cleanup pass finds nothing to clean, the board is the
  board before the call.
\<close>

theorem C5_failed_flip_is_cleanup_only:
  assumes "idle b"
      and "fst (flipCard b p row col) = Threw e" and "validation_error e"
  shows "snd (flipCard b p row col) = afterCleanup b p
       \<and> (fst (cleanupCompletedTurns b p) = False \<longrightarrow> snd (flipCard b p row col) = b)"
  using assms attempt_threw [of "(afterCleanup b p)\<lparr>lockHeld := True\<rparr>" p row col e]
  by (auto simp: flipCard_idle afterCleanup_unchanged idle_release)

theorem C5_failed_flip_is_cleanup_only_witness:
  "idle b_pair \<and> fst (flipCard b_pair ''p1'' 5 5) = Threw InvalidCoordinates
   \<and> validation_error InvalidCoordinates
   \<and> snd (flipCard b_pair ''p1'' 5 5) = afterCleanup b_pair ''p1''"
proof -
  have i: "idle b_pair" by code_simp
  have t: "fst (flipCard b_pair ''p1'' 5 5) = Threw InvalidCoordinates" by code_simp
  have v: "validation_error InvalidCoordinates" by (simp add: validation_error_def)
  from C5_failed_flip_is_cleanup_only [OF i t v] i t v show ?thesis by simp
qed

text \<open>
  C6 (the code at the failing input). On the 2x2 board, p1 holds (0, 0), p2 suspends on
  (0, 0), and p1 flips the card at (1, 0), which does not match: the controller of (0, 0) is
  cleared, the resolver of p2 is still in the queue of (0, 0), and no resolver has been
  invoked. The cleanup pass of the next \<open>flipCard\<close>, which turns (0, 0) face down,
  is what invokes it and empties the queue.
\<close>

theorem C6_mismatch_leaves_waiter:
  "map_of (cardWaiters b_wait) (0, 0) = Some [FlipRetry ''p2'' 0 0]
   \<and> spot_at (grid b_wait) 0 0
       = Some \<lparr>card_spot = Some ''A'', faceUp = True, controller = Some ''p1''\<rparr>
   \<and> b_lost = snd (flipCard b_wait ''p1'' 1 0)
   \<and> spot_at (grid b_lost) 0 0
       = Some \<lparr>card_spot = Some ''A'', faceUp = True, controller = None\<rparr>
   \<and> map_of (cardWaiters b_lost) (0, 0) = Some [FlipRetry ''p2'' 0 0]
   \<and> resumed b_lost = []
   \<and> map_of (cardWaiters (snd (flipCard b_lost ''p1'' 1 1))) (0, 0) = None
   \<and> resumed (snd (flipCard b_lost ''p1'' 1 1)) = [FlipRetry ''p2'' 0 0]"
  by code_simp

text \<open>
  C7 (as stated, refuted). Player p1 holds the matched pair at (0, 0) and (0, 1), both
  face up and controlled by p1, and flips (0, 0) again: the cleanup pass removes the
  pair first, and the call fails with "no card at position", not with "already
  controlled by you".
\<close>

theorem C7_counterexample:
  "reachable b_pair
   \<and> spot_at (grid b_pair) 0 0
       = Some \<lparr>card_spot = Some ''A'', faceUp = True, controller = Some ''p1''\<rparr>
   \<and> fst (flipCard b_pair ''p1'' 0 0) = Threw NoCardAtPosition"
proof -
  have "spot_at (grid b_pair) 0 0
       = Some \<lparr>card_spot = Some ''A'', faceUp = True, controller = Some ''p1''\<rparr>
   \<and> fst (flipCard b_pair ''p1'' 0 0) = Threw NoCardAtPosition"
    by code_simp
  with reachable_b_pair show ?thesis by simp
qed

text \<open>
  C7 (amended). \<open>flipCard\<close> on a cell that is face up and controlled by the calling
  player always fails and never suspends. The fault is "already controlled by you"
  when the player controls fewer than two cards; when the player holds two cards of
  equal value the cleanup pass removes both first and the fault is "no card at
  position"; in any other state with two or more controlled cards it is "you already
  control 2 cards".
\<close>

theorem C7_own_card_always_fails:
  assumes "idle b" and "checkRep b" and "0 \<le> row" and "0 \<le> col"
      and "spot_at (grid b) (nat row) (nat col) = Some s"
      and "controller s = Some p" and "faceUp s"
  shows "fst (flipCard b p row col) =
           Threw (if holdsMatchedPair b p then NoCardAtPosition
                  else if controlledCount b p \<ge> 2 then AlreadyControlTwo
                  else AlreadyControlledByYou)"
  using assms flipCard_locked_own_card [of "b\<lparr>lockHeld := True\<rparr>" row col s p]
  by (simp add: flipCard_idle_locked)

theorem C7_own_card_always_fails_witness:
  "idle b_first \<and> checkRep b_first \<and> (0::int) \<le> 0
   \<and> spot_at (grid b_first) (nat 0) (nat 0)
       = Some \<lparr>card_spot = Some ''A'', faceUp = True, controller = Some ''p1''\<rparr>
   \<and> fst (flipCard b_first ''p1'' 0 0) = Threw AlreadyControlledByYou"
proof -
  have i: "idle b_first" by code_simp
  have c: "checkRep b_first" by code_simp
  have s: "spot_at (grid b_first) (nat 0) (nat 0)
       = Some \<lparr>card_spot = Some ''A'', faceUp = True, controller = Some ''p1''\<rparr>" by code_simp
  have h: "\<not> holdsMatchedPair b_first ''p1''" by code_simp
  have n: "\<not> controlledCount b_first ''p1'' \<ge> 2" by code_simp
  have z: "(0::int) \<le> 0" by simp
  have k: "controller \<lparr>card_spot = Some ''A'', faceUp = True, controller = Some ''p1''\<rparr> = Some ''p1''"
    by simp
  have f: "faceUp \<lparr>card_spot = Some ''A'', faceUp = True, controller = Some ''p1''\<rparr>"
    by simp
  from C7_own_card_always_fails [OF i c z z s k f] h n i c s show ?thesis by simp
qed




text \<open>
  C9. \<open>renderFor(player)\<close> on a board whose lock is free returns the text whose lines
  (each ended by a newline) are the dimension line followed by one line per cell in
  row-major order: \<open>none\<close> for no card, \<open>down\<close> for a face-down card,
  \<open>my CARD\<close> for a face-up card controlled by the player and \<open>up CARD\<close> for any
  other face-up card; and the board after the call is the board before it.
\<close>

theorem C9_renderFor:
  assumes "idle b" and "checkRep b"
  shows "snd (renderFor b p) = b
       \<and> fst (renderFor b p) = Returned (Text (join_lines (render_lines b p) @ [CHR 0x0A]))
       \<and> split_lines (join_lines (render_lines b p) @ [CHR 0x0A]) = render_lines b p @ [[]]
       \<and> length (render_lines b p) = 1 + rows b * cols b
       \<and> render_lines b p ! 0 = show_nat (rows b) @ ''x'' @ show_nat (cols b)
       \<and> (\<forall>r c. r < rows b \<and> c < cols b \<longrightarrow>
            render_lines b p ! (1 + r * cols b + c) = viewOf (grid b ! r ! c) p)
       \<and> (\<forall>s v. viewOf (s\<lparr>card_spot := None\<rparr>) p = ''none''
              \<and> viewOf (s\<lparr>card_spot := Some v, faceUp := False\<rparr>) p = ''down''
              \<and> viewOf (s\<lparr>card_spot := Some v, faceUp := True, controller := Some p\<rparr>) p = ''my '' @ v
              \<and> (controller s \<noteq> Some p \<longrightarrow>
                   viewOf (s\<lparr>card_spot := Some v, faceUp := True\<rparr>) p = ''up '' @ v))"
proof -
  have ne: "render_lines b p \<noteq> []" by (simp add: render_lines_def)
  show ?thesis
    using split_join_lines [OF ne render_lines_no_nl [OF assms(2)]]
      render_lines_nth [OF assms(2)]
    by (simp add: renderFor_idle [OF assms(1)] render_lines_map [OF assms(2)] length_positions
          viewOf_def)
qed

theorem C9_renderFor_witness:
  "idle b_pair \<and> checkRep b_pair \<and> snd (renderFor b_pair ''p2'') = b_pair
   \<and> fst (renderFor b_pair ''p2'')
       = Returned (Text (''2x2'' @ [CHR 0x0A] @ ''up A'' @ [CHR 0x0A] @ ''up A'' @ [CHR 0x0A]
                         @ ''down'' @ [CHR 0x0A] @ ''down'' @ [CHR 0x0A]))"
proof -
  have i: "idle b_pair" by code_simp
  have c: "checkRep b_pair" by code_simp
  have t: "join_lines (render_lines b_pair ''p2'') @ [CHR 0x0A]
       = ''2x2'' @ [CHR 0x0A] @ ''up A'' @ [CHR 0x0A] @ ''up A'' @ [CHR 0x0A]
                         @ ''down'' @ [CHR 0x0A] @ ''down'' @ [CHR 0x0A]" by code_simp
  from C9_renderFor [OF i c, of "''p2''"] i c t show ?thesis by simp
qed



end
